theory Spec2Isabelle
  imports Main "HOL-Library.Sublist"
begin

section \<open>The video pipeline of videoPipeline.ts\<close>

text \<open>
  The program is a single TypeScript module. Its producer downloads videos, copies them
  into a directory that plays the role of an S3 bucket and publishes the object key on a
  Kafka topic; its consumer fetches the object named by each message, converts it with
  ffmpeg into every configured format and copies the results back into the bucket
  directory.

  Everything the module does is a sequence of calls to Node's \<open>path\<close> and \<open>fs\<close>
  libraries and to three external tools (yt-dlp, ffmpeg, the Kafka client). The library
  calls are modelled below as total functions on strings and on an explicit file system;
  the external tools are parameters of the model (fields of the record \<open>env\<close>).
\<close>

subsection \<open>Node's \<open>path\<close> module (POSIX flavour)\<close>

type_synonym path = string
type_synonym bytes = string

text \<open>\<open>path.basename(p)\<close>: the last component of \<open>p\<close>, trailing slashes ignored.\<close>

definition path_basename :: "path \<Rightarrow> string" where
  "path_basename p =
     rev (takeWhile (\<lambda>c. c \<noteq> CHR ''/'') (dropWhile (\<lambda>c. c = CHR ''/'') (rev p)))"

text \<open>
  \<open>path.extname(p)\<close>: from the last dot of the last component to its end. The result is
  empty when the component has no dot, when its only dot is its first character, and
  when the component is \<open>..\<close>.
\<close>

definition path_extname :: "path \<Rightarrow> string" where
  "path_extname p =
     (let comp = path_basename p;
          after = takeWhile (\<lambda>c. c \<noteq> CHR ''.'') (rev comp);
          upto = dropWhile (\<lambda>c. c \<noteq> CHR ''.'') (rev comp)
      in if upto = [] \<or> tl upto = [] \<or> comp = ''..'' then []
         else CHR ''.'' # rev after)"

text \<open>
  \<open>path.basename(p, ext)\<close>: the last component with the suffix \<open>ext\<close> removed, unless
  the component is the suffix itself. When the component is shorter than \<open>ext\<close> and
  matches its tail, Node returns the component together with the trailing slashes of
  \<open>p\<close>; that corner is kept.
\<close>

definition path_basename_ext :: "path \<Rightarrow> string \<Rightarrow> string" where
  "path_basename_ext p ext =
     (if ext = [] \<or> length p < length ext then path_basename p
      else if ext = p then []
      else let comp = path_basename p in
        if suffix ext comp then
          (if ext = comp then comp else take (length comp - length ext) comp)
        else if suffix comp ext then
          comp @ takeWhile (\<lambda>c. c = CHR ''/'') (rev p)
        else comp)"

text \<open>\<open>path.dirname(p)\<close>.\<close>

definition path_dirname :: "path \<Rightarrow> path" where
  "path_dirname p =
     (if p = [] then ''.''
      else let hasRoot = (hd p = CHR ''/'');
               r = dropWhile (\<lambda>c. c \<noteq> CHR ''/'')
                     (dropWhile (\<lambda>c. c = CHR ''/'') (rev (tl p)))
           in if r = [] then (if hasRoot then ''/'' else ''.'')
              else if hasRoot \<and> tl r = [] then ''//''
              else hd p # rev (tl r))"

text \<open>
  \<open>path.normalize\<close> and \<open>path.join\<close>. The path is cut at its slashes; empty segments
  and \<open>.\<close> are dropped; \<open>..\<close> removes the segment before it, is dropped at the root of
  an absolute path and is kept at the front of a relative one. A leading and a trailing
  slash are preserved.
\<close>

fun split_slash :: "string \<Rightarrow> string list" where
  "split_slash [] = [[]]"
| "split_slash (c # cs) =
     (if c = CHR ''/'' then [] # split_slash cs
      else (case split_slash cs of [] \<Rightarrow> [[c]] | s # ss \<Rightarrow> (c # s) # ss))"

fun norm_segs :: "bool \<Rightarrow> string list \<Rightarrow> string list \<Rightarrow> string list" where
  "norm_segs up acc [] = rev acc"
| "norm_segs up acc (s # ss) =
     (if s = [] \<or> s = ''.'' then norm_segs up acc ss
      else if s = ''..'' then
        (case acc of
           [] \<Rightarrow> norm_segs up (if up then [''..''] else []) ss
         | t # ts \<Rightarrow>
             if t = ''..'' then norm_segs up (''..'' # acc) ss
             else norm_segs up ts ss)
      else norm_segs up (s # acc) ss)"

fun join_slash :: "string list \<Rightarrow> string" where
  "join_slash [] = []"
| "join_slash [s] = s"
| "join_slash (s # t # ts) = s @ CHR ''/'' # join_slash (t # ts)"

definition path_normalize :: "path \<Rightarrow> path" where
  "path_normalize p =
     (if p = [] then ''.''
      else let isAbsolute = (hd p = CHR ''/'');
               trailingSeparator = (last p = CHR ''/'');
               r = join_slash (norm_segs (\<not> isAbsolute) [] (split_slash p))
           in if r = [] then
                (if isAbsolute then ''/'' else if trailingSeparator then ''./'' else ''.'')
              else (if isAbsolute then ''/'' else []) @ r
                   @ (if trailingSeparator then ''/'' else []))"

definition path_join :: "path \<Rightarrow> path \<Rightarrow> path" where
  "path_join a b =
     (if a = [] \<and> b = [] then ''.''
      else path_normalize (if a = [] then b else if b = [] then a else a @ CHR ''/'' # b))"

subsection \<open>The file system and Node's \<open>fs\<close> module\<close>

text \<open>
  The local disk holds regular files and directories, addressed by the path strings the
  program computes with \<open>path.join\<close>. The bucket directory \<open>storage\<close> lives on the same
  disk, as in the source, so an upload is a file copy.
\<close>

datatype node = File bytes | Dir

type_synonym filesystem = "path \<Rightarrow> node option"

datatype error = ENOENT | EISDIR | ENOTDIR | EEXIST | ExecError | FfmpegError | KafkaError

definition existsSync :: "filesystem \<Rightarrow> path \<Rightarrow> bool" where
  "existsSync fs p = (fs p \<noteq> None)"

text \<open>\<open>fs.mkdirSync(p)\<close>: the parent must be a directory and \<open>p\<close> must be new.\<close>

definition mkdirSync :: "filesystem \<Rightarrow> path \<Rightarrow> error + filesystem" where
  "mkdirSync fs p =
     (if fs p \<noteq> None then Inl EEXIST
      else if fs (path_dirname p) \<noteq> Some Dir then Inl ENOENT
      else Inr (fs(p \<mapsto> Dir)))"

text \<open>
  \<open>fs.mkdirSync(p, {recursive: true})\<close>: missing ancestors are created first; an existing
  directory is left alone; a regular file in the way is an error, and then nothing has
  been created. A path that is its own parent (\<open>/\<close>, \<open>.\<close>) ends the recursion.
\<close>

function mkdirSync_recursive :: "filesystem \<Rightarrow> path \<Rightarrow> error + filesystem" where
  "mkdirSync_recursive fs p =
     (case fs p of
        Some Dir \<Rightarrow> Inr fs
      | Some (File c) \<Rightarrow> Inl EEXIST
      | None \<Rightarrow>
          if length (path_dirname p) < length p then
            (case mkdirSync_recursive fs (path_dirname p) of
               Inl e \<Rightarrow> Inl ENOTDIR
             | Inr fs' \<Rightarrow> Inr (fs'(p \<mapsto> Dir)))
          else Inr (fs(p \<mapsto> Dir)))"
  by pat_completeness auto
termination
  by (relation "measure (\<lambda>(fs, p). length p)") auto

declare mkdirSync_recursive.simps [simp del]

text \<open>
  Reading and creating regular files. A path that ends in a slash can only name a
  directory, so it is neither readable nor writable as a file. A file is created or
  overwritten in place; its parent must be a directory.
\<close>

definition readFile :: "filesystem \<Rightarrow> path \<Rightarrow> bytes option" where
  "readFile fs p =
     (if p = [] \<or> last p = CHR ''/'' then None
      else case fs p of Some (File c) \<Rightarrow> Some c | _ \<Rightarrow> None)"

definition writeFile :: "filesystem \<Rightarrow> path \<Rightarrow> bytes \<Rightarrow> error + filesystem" where
  "writeFile fs p b =
     (if p = [] \<or> last p = CHR ''/'' \<or> fs p = Some Dir then Inl EISDIR
      else if fs (path_dirname p) \<noteq> Some Dir then Inl ENOENT
      else Inr (fs(p \<mapsto> File b)))"

text \<open>
  \<open>fs.copyFile(src, dest)\<close> opens \<open>src\<close> for reading, then \<open>dest\<close> for writing, then
  copies the bytes. It returns the error and the disk at the moment of the error, or
  the disk with the copy.
  \<^item> Opening \<open>src\<close> fails with ENOTDIR when the path runs through a regular file (one of
    \<open>ancestors src\<close>, the prefixes of \<open>src\<close> that end before a slash, is a regular file),
    and with ENOENT when nothing is there. Nothing has changed then.
  \<^item> A directory can be opened for reading, with or without a slash at the end of the
    path, and only reading from it fails, with EISDIR. That is after \<open>dest\<close> was opened
    for writing, and \<open>fs.copyFile\<close> removes the destination when it fails after that
    point: \<open>dest\<close> is gone then, also if it held a file before.
  \<^item> When \<open>dest\<close> cannot be opened for writing the error is that of the write, and
    nothing has changed.
\<close>

definition is_file :: "filesystem \<Rightarrow> path \<Rightarrow> bool" where
  "is_file fs p = (case fs p of Some (File c) \<Rightarrow> True | _ \<Rightarrow> False)"

definition ancestors :: "path \<Rightarrow> path list" where
  "ancestors p = map (\<lambda>n. take n p) (filter (\<lambda>n. p ! n = CHR ''/'') [1..<length p])"

definition strip_slashes :: "path \<Rightarrow> path" where
  "strip_slashes p = rev (dropWhile (\<lambda>c. c = CHR ''/'') (rev p))"

definition is_directory :: "filesystem \<Rightarrow> path \<Rightarrow> bool" where
  "is_directory fs p = (fs p = Some Dir \<or> fs (strip_slashes p) = Some Dir)"

definition copyFile :: "filesystem \<Rightarrow> path \<Rightarrow> path \<Rightarrow> error \<times> filesystem + filesystem" where
  "copyFile fs src dest =
     (case readFile fs src of
        Some c \<Rightarrow>
          (case writeFile fs dest c of
             Inl e \<Rightarrow> Inl (e, fs)
           | Inr fs1 \<Rightarrow> Inr fs1)
      | None \<Rightarrow>
          if list_ex (is_file fs) (ancestors src) then Inl (ENOTDIR, fs)
          else if is_directory fs src then
            (case writeFile fs dest [] of
               Inl e \<Rightarrow> Inl (e, fs)
             | Inr fs1 \<Rightarrow> Inl (EISDIR, fs(dest := None)))
          else Inl (ENOENT, fs))"

definition unlinkSync :: "filesystem \<Rightarrow> path \<Rightarrow> error + filesystem" where
  "unlinkSync fs p =
     (case fs p of
        Some (File c) \<Rightarrow> Inr (fs(p := None))
      | Some Dir \<Rightarrow> Inl EISDIR
      | None \<Rightarrow> Inl ENOENT)"

subsection \<open>The environment of the module\<close>

text \<open>
  \<open>dirname\<close> is \<open>__dirname\<close>; \<open>outputFormats\<close> is the module's configuration constant.
  The three tools are functions of what they are given:
  \<^item> \<open>ytdlp url out\<close> is the media yt-dlp stores at \<open>out\<close>, or \<open>None\<close> when it exits with
    an error;
  \<^item> \<open>ffmpeg inp c out\<close> is what ffmpeg writes to \<open>out\<close> when it converts the file \<open>inp\<close>
    with contents \<open>c\<close>, or \<open>None\<close> when it reports an error (the target format is the
    extension of \<open>out\<close>);
  \<^item> \<open>kafka log msg\<close> tells how producing \<open>msg\<close> on the topic ends, given the messages
    already on it.
\<close>

datatype kafka_outcome = ConnectFails | SendFails | DisconnectFails | Delivered

record env =
  dirname :: path
  outputFormats :: "string list"
  ytdlp :: "string \<Rightarrow> path \<Rightarrow> bytes option"
  ffmpeg :: "path \<Rightarrow> bytes \<Rightarrow> path \<Rightarrow> bytes option"
  kafka :: "string list \<Rightarrow> string \<Rightarrow> kafka_outcome"

text \<open>The value of \<open>outputFormats\<close> in the source.\<close>

definition source_outputFormats :: "string list" where
  "source_outputFormats = [''mp4'', ''avi'', ''webm'', ''mkv'']"

text \<open>
  The observable state: the disk, the messages of the topic \<open>video-uploads\<close> in order,
  and the lines written with \<open>console.error\<close> and \<open>console.warn\<close>.
\<close>

record world =
  files :: filesystem
  topic :: "string list"
  console :: "string list"

subsection \<open>The functions of videoPipeline.ts\<close>

text \<open>
  A function that can reject returns \<open>Inl (e, s)\<close>, the error and the state at the moment
  it was raised, or \<open>Inr\<close> with its value and the state.
\<close>

definition storageDir :: "env \<Rightarrow> path" where
  "storageDir env = path_join (dirname env) ''storage''"

text \<open>Lines 16 to 19: the bucket directory is created when the module is loaded.\<close>

definition module_init :: "env \<Rightarrow> filesystem \<Rightarrow> error + filesystem" where
  "module_init env fs =
     (if \<not> existsSync fs (storageDir env) then mkdirSync_recursive fs (storageDir env)
      else Inr fs)"

definition uploadToS3 ::
  "env \<Rightarrow> filesystem \<Rightarrow> path \<Rightarrow> string \<Rightarrow> error \<times> filesystem + filesystem" where
  "uploadToS3 env fs localFilePath s3Key =
     (let destPath = path_join (storageDir env) s3Key;
          destDir = path_dirname destPath
      in case (if \<not> existsSync fs destDir then mkdirSync_recursive fs destDir else Inr fs) of
           Inl e \<Rightarrow> Inl (e, fs)
         | Inr fs1 \<Rightarrow>
             (case copyFile fs1 localFilePath destPath of
                Inl (e, fs2) \<Rightarrow> Inl (e, fs2)
              | Inr fs2 \<Rightarrow> Inr fs2))"

definition downloadFromS3 ::
  "env \<Rightarrow> filesystem \<Rightarrow> string \<Rightarrow> path \<Rightarrow> error \<times> filesystem + path \<times> filesystem" where
  "downloadFromS3 env fs s3Key localPath =
     (let srcPath = path_join (storageDir env) s3Key
      in case copyFile fs srcPath localPath of
           Inl (e, fs1) \<Rightarrow> Inl (e, fs1)
         | Inr fs1 \<Rightarrow> Inr (localPath, fs1))"

text \<open>
  \<open>downloadYouTubeVideo\<close> runs yt-dlp with the output template \<open>outputPath.mp4\<close> and
  resolves with that path. A download that cannot create its file is a failed download.
\<close>

definition downloadYouTubeVideo ::
  "env \<Rightarrow> filesystem \<Rightarrow> string \<Rightarrow> path \<Rightarrow> error \<times> filesystem + path \<times> filesystem" where
  "downloadYouTubeVideo env fs videoUrl outputPath =
     (case ytdlp env videoUrl (outputPath @ ''.mp4'') of
        None \<Rightarrow> Inl (ExecError, fs)
      | Some b \<Rightarrow>
          (case writeFile fs (outputPath @ ''.mp4'') b of
             Inl e \<Rightarrow> Inl (ExecError, fs)
           | Inr fs1 \<Rightarrow> Inr (outputPath @ ''.mp4'', fs1)))"

text \<open>
  \<open>produceEvent\<close> connects, sends one message and disconnects; each step can throw. A
  failure to disconnect comes after the message has been appended.
\<close>

definition produceEvent ::
  "env \<Rightarrow> string list \<Rightarrow> string \<Rightarrow> error \<times> string list + string list" where
  "produceEvent env log s3Key =
     (case kafka env log s3Key of
        ConnectFails \<Rightarrow> Inl (KafkaError, log)
      | SendFails \<Rightarrow> Inl (KafkaError, log)
      | DisconnectFails \<Rightarrow> Inl (KafkaError, log @ [s3Key])
      | Delivered \<Rightarrow> Inr (log @ [s3Key]))"

text \<open>
  \<open>tempEncodedDir\<close> is the directory \<open>temp_encoded\<close> beside the module: \<open>outputDir\<close> in
  \<open>encodeVideo\<close> and \<open>tempDir\<close> in \<open>processVideo\<close>. \<open>encodeVideo_outputPath\<close> is the
  \<open>outputPath\<close> of lines 69 to 72.

  \<open>encodeVideo\<close> computes the output path, makes sure of the output directory and starts
  ffmpeg, all synchronously; the promise it returns settles when ffmpeg ends. The model
  returns how the promise will settle (the rejection, or the output path and the bytes
  ffmpeg leaves there) and the disk after the synchronous part. ffmpeg reads its input
  and opens its output when it is started; its output file appears when it has ended.
\<close>

definition tempEncodedDir :: "env \<Rightarrow> path" where
  "tempEncodedDir env = path_join (dirname env) ''temp_encoded''"

definition encodeVideo_outputPath :: "env \<Rightarrow> path \<Rightarrow> string \<Rightarrow> path" where
  "encodeVideo_outputPath env inputPath format =
     (let inputBasename = path_basename_ext inputPath (path_extname inputPath);
          outputDir = tempEncodedDir env
      in path_join outputDir (inputBasename @ ''.'' @ format))"

definition run_ffmpeg :: "env \<Rightarrow> filesystem \<Rightarrow> path \<Rightarrow> path \<Rightarrow> error + path \<times> bytes" where
  "run_ffmpeg env fs inputPath outputPath =
     (case readFile fs inputPath of
        None \<Rightarrow> Inl FfmpegError
      | Some c \<Rightarrow>
          (case ffmpeg env inputPath c outputPath of
             None \<Rightarrow> Inl FfmpegError
           | Some b \<Rightarrow>
               (case writeFile fs outputPath b of
                  Inl e \<Rightarrow> Inl FfmpegError
                | Inr fs1 \<Rightarrow> Inr (outputPath, b))))"

definition encodeVideo ::
  "env \<Rightarrow> filesystem \<Rightarrow> path \<Rightarrow> string \<Rightarrow> (error + path \<times> bytes) \<times> filesystem" where
  "encodeVideo env fs inputPath format =
     (let outputDir = tempEncodedDir env
      in case (if \<not> existsSync fs outputDir then mkdirSync fs outputDir else Inr fs) of
           Inl e \<Rightarrow> (Inl e, fs)
         | Inr fs1 \<Rightarrow>
             (let outputPath = encodeVideo_outputPath env inputPath format
              in (run_ffmpeg env fs1 inputPath outputPath, fs1)))"

text \<open>\<open>outputFormats.map(format => encodeVideo(localVideoPath, format))\<close>: every
  conversion is started, in the order of the formats.\<close>

fun map_encodeVideo ::
  "env \<Rightarrow> filesystem \<Rightarrow> path \<Rightarrow> string list \<Rightarrow> (error + path \<times> bytes) list \<times> filesystem" where
  "map_encodeVideo env fs inputPath [] = ([], fs)"
| "map_encodeVideo env fs inputPath (format # rest) =
     (case encodeVideo env fs inputPath format of
        (r, fs1) \<Rightarrow>
          (case map_encodeVideo env fs1 inputPath rest of
             (rs, fs2) \<Rightarrow> (r # rs, fs2)))"

text \<open>
  \<open>Promise.all\<close>: when every conversion ends well it resolves with the output paths in
  the order of the formats, and every output file is on the disk. When a conversion is
  rejected it rejects at once, without waiting for the others: at that moment the disk
  holds the outputs of those successful conversions that had already ended. Which ones
  had is a matter of timing; the predicate \<open>early\<close> on the formats says it.
\<close>

fun first_rejection :: "(error + 'a) list \<Rightarrow> error option" where
  "first_rejection [] = None"
| "first_rejection (Inl e # rs) = Some e"
| "first_rejection (Inr x # rs) = first_rejection rs"

fun fulfilled :: "(error + 'a) list \<Rightarrow> 'a list" where
  "fulfilled [] = []"
| "fulfilled (Inl e # rs) = fulfilled rs"
| "fulfilled (Inr x # rs) = x # fulfilled rs"

definition settle :: "path \<times> bytes \<Rightarrow> filesystem \<Rightarrow> filesystem" where
  "settle t fs = fs(fst t \<mapsto> File (snd t))"

definition Promise_all ::
  "(string \<Rightarrow> bool) \<Rightarrow> string list \<Rightarrow> (error + path \<times> bytes) list \<Rightarrow> filesystem
     \<Rightarrow> error \<times> filesystem + path list \<times> filesystem" where
  "Promise_all early fmts rs fs =
     (case first_rejection rs of
        None \<Rightarrow> Inr (map fst (fulfilled rs), fold settle (fulfilled rs) fs)
      | Some e \<Rightarrow>
          Inl (e, fold settle
                    (fulfilled (map snd (filter (\<lambda>fr. early (fst fr)) (zip fmts rs)))) fs))"

text \<open>
  The loop of lines 110 to 113. \<open>encodedVideos\<close> has one entry for each format, so the
  index loop visits every entry once, in order.
\<close>

fun upload_loop :: "env \<Rightarrow> filesystem \<Rightarrow> path list \<Rightarrow> error \<times> filesystem + filesystem" where
  "upload_loop env fs [] = Inr fs"
| "upload_loop env fs (v # vs) =
     (case uploadToS3 env fs v (''encoded/'' @ path_basename v) of
        Inl x \<Rightarrow> Inl x
      | Inr fs1 \<Rightarrow>
          (case unlinkSync fs1 v of
             Inl e \<Rightarrow> Inl (e, fs1)
           | Inr fs2 \<Rightarrow> upload_loop env fs2 vs))"

text \<open>
  \<open>processVideo\<close>, in its four steps: lines 103 to 107 fetch the original into the
  scratch directory; line 108 starts the conversions and joins them; lines 110 to 113
  upload and delete each output; line 114 deletes the original.
\<close>

definition localVideoPath :: "env \<Rightarrow> string \<Rightarrow> path" where
  "localVideoPath env s3Key = path_join (tempEncodedDir env) (path_basename s3Key)"

definition processVideo_fetch ::
  "env \<Rightarrow> filesystem \<Rightarrow> string \<Rightarrow> error \<times> filesystem + filesystem" where
  "processVideo_fetch env fs s3Key =
     (let tempDir = tempEncodedDir env
      in case (if \<not> existsSync fs tempDir then mkdirSync_recursive fs tempDir else Inr fs) of
           Inl e \<Rightarrow> Inl (e, fs)
         | Inr fs1 \<Rightarrow>
             (case downloadFromS3 env fs1 s3Key (localVideoPath env s3Key) of
                Inl x \<Rightarrow> Inl x
              | Inr (p, fs2) \<Rightarrow> Inr fs2))"

definition processVideo_encode ::
  "env \<Rightarrow> (string \<Rightarrow> bool) \<Rightarrow> filesystem \<Rightarrow> path
     \<Rightarrow> error \<times> filesystem + path list \<times> filesystem" where
  "processVideo_encode env early fs inputPath =
     (case map_encodeVideo env fs inputPath (outputFormats env) of
        (promises, fs1) \<Rightarrow> Promise_all early (outputFormats env) promises fs1)"

definition processVideo ::
  "env \<Rightarrow> (string \<Rightarrow> bool) \<Rightarrow> filesystem \<Rightarrow> string \<Rightarrow> error \<times> filesystem + filesystem" where
  "processVideo env early fs s3Key =
     (case processVideo_fetch env fs s3Key of
        Inl x \<Rightarrow> Inl x
      | Inr fs2 \<Rightarrow>
          (case processVideo_encode env early fs2 (localVideoPath env s3Key) of
             Inl x \<Rightarrow> Inl x
           | Inr (encodedVideos, fs4) \<Rightarrow>
               (case upload_loop env fs4 encodedVideos of
                  Inl x \<Rightarrow> Inl x
                | Inr fs5 \<Rightarrow>
                    (case unlinkSync fs5 (localVideoPath env s3Key) of
                       Inl e \<Rightarrow> Inl (e, fs5)
                     | Inr fs6 \<Rightarrow> Inr fs6))))"

text \<open>
  The handler \<open>eachMessage\<close> of \<open>runConsumer\<close>. \<open>message.value\<close> is a buffer or null;
  \<open>message.value?.toString()\<close> is a string or undefined, and the test \<open>if (s3Key)\<close>
  holds for a non-empty string only. Nothing catches what \<open>processVideo\<close> throws.
\<close>

fun truthy :: "string option \<Rightarrow> bool" where
  "truthy None = False"
| "truthy (Some s) = (s \<noteq> [])"

definition eachMessage ::
  "env \<Rightarrow> (string \<Rightarrow> bool) \<Rightarrow> world \<Rightarrow> bytes option \<Rightarrow> error \<times> world + world" where
  "eachMessage env early w msg =
     (let s3Key = msg
      in if truthy s3Key then
           (case processVideo env early (files w) (the s3Key) of
              Inl (e, fs1) \<Rightarrow> Inl (e, w\<lparr>files := fs1\<rparr>)
            | Inr fs1 \<Rightarrow> Inr (w\<lparr>files := fs1\<rparr>))
         else Inr (w\<lparr>console := console w @ [''Received invalid message'']\<rparr>))"

text \<open>
  \<open>runProducer\<close>: the body of the \<open>try\<close> block for one id, the \<open>for\<close> loop with its
  \<open>catch\<close>, and the function itself on a work list. \<open>ids\<close> is the list of the source.
\<close>

definition producer_iteration ::
  "env \<Rightarrow> path \<Rightarrow> world \<Rightarrow> string \<Rightarrow> error \<times> world + world" where
  "producer_iteration env tempDir w ident =
     (let outputFilename = ''downloaded_video_'' @ ident;
          localOutputPath = path_join tempDir outputFilename;
          videoUrl = ''https://www.youtube.com/watch?v='' @ ident
      in case downloadYouTubeVideo env (files w) videoUrl localOutputPath of
           Inl (e, fs1) \<Rightarrow> Inl (e, w\<lparr>files := fs1\<rparr>)
         | Inr (localOutputPath1, fs1) \<Rightarrow>
             (let s3Key = ''videos/'' @ outputFilename @ ''.mp4''
              in case uploadToS3 env fs1 localOutputPath1 s3Key of
                   Inl (e, fs2) \<Rightarrow> Inl (e, w\<lparr>files := fs2\<rparr>)
                 | Inr fs2 \<Rightarrow>
                     (case produceEvent env (topic w) s3Key of
                        Inl (e, log1) \<Rightarrow> Inl (e, w\<lparr>files := fs2, topic := log1\<rparr>)
                      | Inr log1 \<Rightarrow>
                          (case unlinkSync fs2 localOutputPath1 of
                             Inl e \<Rightarrow> Inl (e, w\<lparr>files := fs2, topic := log1\<rparr>)
                           | Inr fs3 \<Rightarrow> Inr (w\<lparr>files := fs3, topic := log1\<rparr>)))))"

fun producer_loop :: "env \<Rightarrow> path \<Rightarrow> world \<Rightarrow> string list \<Rightarrow> world" where
  "producer_loop env tempDir w [] = w"
| "producer_loop env tempDir w (ident # rest) =
     (case producer_iteration env tempDir w ident of
        Inl (e, w1) \<Rightarrow>
          producer_loop env tempDir (w1\<lparr>console := console w1 @ [''Error in producer:'']\<rparr>) rest
      | Inr w1 \<Rightarrow> producer_loop env tempDir w1 rest)"

definition ids :: "string list" where
  "ids = [''c-I5S_zTwAc'', ''DHjqpvDnNGE'', ''zQnBQ4tB3ZA'']"

definition tempDir :: "env \<Rightarrow> path" where
  "tempDir env = path_join (dirname env) ''temp''"

definition runProducer_on :: "env \<Rightarrow> world \<Rightarrow> string list \<Rightarrow> error \<times> world + world" where
  "runProducer_on env w work =
     (case (if \<not> existsSync (files w) (tempDir env)
            then mkdirSync_recursive (files w) (tempDir env) else Inr (files w)) of
        Inl e \<Rightarrow> Inl (e, w)
      | Inr fs1 \<Rightarrow> Inr (producer_loop env (tempDir env) (w\<lparr>files := fs1\<rparr>) work))"

definition runProducer :: "env \<Rightarrow> world \<Rightarrow> error \<times> world + world" where
  "runProducer env w = runProducer_on env w ids"

text \<open>
  The bucket seen through its keys: the object of key \<open>k\<close> is the regular file that
  \<open>downloadFromS3\<close> would copy. The bucket seen as a directory: the paths below
  \<open>storageDir\<close>.
\<close>

definition blob :: "env \<Rightarrow> filesystem \<Rightarrow> string \<Rightarrow> bytes option" where
  "blob env fs k = readFile fs (path_join (storageDir env) k)"

definition in_storage :: "env \<Rightarrow> path \<Rightarrow> bool" where
  "in_storage env p = prefix (storageDir env @ ''/'') p"

definition encodedDir :: "env \<Rightarrow> path" where
  "encodedDir env = storageDir env @ ''/encoded''"

definition videosDir :: "env \<Rightarrow> path" where
  "videosDir env = storageDir env @ ''/videos''"

text \<open>
  What one iteration of \<open>runProducer\<close> computes from an id: the URL, the file yt-dlp
  leaves in \<open>temp\<close>, and the key of the original in the bucket (lines 88 to 92).
\<close>

definition video_url :: "string \<Rightarrow> string" where
  "video_url ident = ''https://www.youtube.com/watch?v='' @ ident"

definition video_localPath :: "env \<Rightarrow> string \<Rightarrow> path" where
  "video_localPath env ident = path_join (tempDir env) (''downloaded_video_'' @ ident) @ ''.mp4''"

definition video_key :: "string \<Rightarrow> string" where
  "video_key ident = ''videos/'' @ (''downloaded_video_'' @ ident) @ ''.mp4''"

text \<open>Whether yt-dlp succeeds for an id.\<close>

definition downloads :: "env \<Rightarrow> string \<Rightarrow> bool" where
  "downloads env ident = (ytdlp env (video_url ident) (video_localPath env ident) \<noteq> None)"

text \<open>
  A disk on which no iteration of the producer can fail for a reason of the disk: the
  module's directory exists, no regular file stands where a directory is needed, and no
  directory stands where a file will be written.
\<close>

definition producer_ready :: "env \<Rightarrow> filesystem \<Rightarrow> string list \<Rightarrow> bool" where
  "producer_ready env fs work =
     (fs (dirname env) = Some Dir
      \<and> \<not> is_file fs (tempDir env) \<and> \<not> is_file fs (storageDir env)
      \<and> \<not> is_file fs (videosDir env)
      \<and> list_all (\<lambda>ident. fs (video_localPath env ident) \<noteq> Some Dir
             \<and> fs (path_join (storageDir env) (video_key ident)) \<noteq> Some Dir) work)"

text \<open>
  Well-formed inputs. \<open>dir_path d\<close>: an absolute, normalised path other than the root,
  as \<open>__dirname\<close> is. \<open>plain_name n\<close>: one path component that names an entry.
  \<open>valid_format f\<close>: a file extension.
\<close>

definition dir_path :: "path \<Rightarrow> bool" where
  "dir_path d = (d \<noteq> [] \<and> hd d = CHR ''/'' \<and> last d \<noteq> CHR ''/'' \<and> path_normalize d = d)"

definition plain_name :: "string \<Rightarrow> bool" where
  "plain_name n = (n \<noteq> [] \<and> CHR ''/'' \<notin> set n \<and> n \<noteq> ''.'' \<and> n \<noteq> ''..'')"

definition valid_format :: "string \<Rightarrow> bool" where
  "valid_format f = (f \<noteq> [] \<and> CHR ''/'' \<notin> set f)"

text \<open>
  The name of a file without its extension, as \<open>encodeVideo\<close> computes it on line 69.
\<close>

definition stem :: "path \<Rightarrow> string" where
  "stem p = path_basename_ext p (path_extname p)"

subsection \<open>A concrete installation\<close>

text \<open>
  The module installed in \<open>/app\<close>, with tools that always succeed, and a disk whose
  bucket holds two originals. The concrete cases below are run on it.
\<close>

definition example_env :: env where
  "example_env =
     \<lparr>dirname = ''/app'', outputFormats = source_outputFormats,
      ytdlp = (\<lambda>url out. Some (''media of '' @ url)),
      ffmpeg = (\<lambda>inp c out. Some (c @ '' as '' @ out)),
      kafka = (\<lambda>log msg. Delivered)\<rparr>"

definition example_disk :: filesystem where
  "example_disk =
     [''/app'' \<mapsto> Dir, ''/app/storage'' \<mapsto> Dir, ''/app/storage/videos'' \<mapsto> Dir,
      ''/app/storage/videos/x.mp4'' \<mapsto> File ''original x'',
      ''/app/storage/videos/y.mov'' \<mapsto> File ''original y'']"

definition example_world :: world where
  "example_world = \<lparr>files = example_disk, topic = [], console = []\<rparr>"

definition always :: "string \<Rightarrow> bool" where
  "always f = True"

text \<open>The same world once \<open>runProducer\<close> has created its directory \<open>temp\<close>.\<close>

definition example_world_temp :: world where
  "example_world_temp = example_world\<lparr>files := (files example_world)(''/app/temp'' \<mapsto> Dir)\<rparr>"

text \<open>
  Variants of the installation: only the formats mp4 and avi are configured; ffmpeg
  fails for every avi output; the mp4 conversion is the only one that has ended when a
  join is rejected.
\<close>

definition two_format_env :: env where
  "two_format_env = example_env\<lparr>outputFormats := [''mp4'', ''avi'']\<rparr>"

definition avi_fails_env :: env where
  "avi_fails_env =
     example_env\<lparr>ffmpeg := (\<lambda>inp c out.
        if path_extname out = ''.avi'' then None else Some (c @ '' as '' @ out))\<rparr>"

definition mp4_early :: "string \<Rightarrow> bool" where
  "mp4_early f = (f = ''mp4'')"

text \<open>A downloader that fails for the id \<open>v2\<close> and for no other.\<close>

definition v2_fails_env :: env where
  "v2_fails_env =
     example_env\<lparr>ytdlp := (\<lambda>url out.
        if url = video_url ''v2'' then None else Some (''media of '' @ url))\<rparr>"

text \<open>
  A second encoder, which marks its output: used to tell the objects written by a second
  delivery from those written by the first.
\<close>

definition second_ffmpeg :: "path \<Rightarrow> bytes \<Rightarrow> path \<Rightarrow> bytes option" where
  "second_ffmpeg inp c out = Some (c @ '' again as '' @ out)"

text \<open>
  A disk that holds nothing but the module's directory: neither \<open>temp\<close> nor the bucket
  directory exists yet.
\<close>

definition fresh_world :: world where
  "fresh_world = \<lparr>files = [''/app'' \<mapsto> Dir], topic = [], console = []\<rparr>"

section \<open>Facts about paths\<close>

lemma split_slash_ne [simp]: "split_slash p \<noteq> []"
  by (induction p) (auto split: list.splits)

lemma split_slash_plain: "CHR ''/'' \<notin> set n \<Longrightarrow> split_slash n = [n]"
  by (induction n) auto

lemma split_slash_append: "split_slash (a @ CHR ''/'' # b) = split_slash a @ split_slash b"
  by (induction a) (auto split: list.splits)

lemma norm_segs_append:
  "norm_segs up acc (xs @ ys) = norm_segs up (rev (norm_segs up acc xs)) ys"
  by (induction up acc xs rule: norm_segs.induct) (auto split: list.splits)

lemma join_slash_snoc: "ns \<noteq> [] \<Longrightarrow> join_slash (ns @ [n]) = join_slash ns @ CHR ''/'' # n"
  by (induction ns rule: join_slash.induct) auto

lemma dir_pathD:
  assumes "dir_path d"
  shows "d \<noteq> []" "hd d = CHR ''/''" "last d \<noteq> CHR ''/''"
    and "norm_segs False [] (split_slash d) \<noteq> []"
    and "d = CHR ''/'' # join_slash (norm_segs False [] (split_slash d))"
  using assms unfolding dir_path_def path_normalize_def Let_def
  by (auto split: if_splits)

lemma plain_nameD:
  assumes "plain_name n"
  shows "n \<noteq> []" "CHR ''/'' \<notin> set n" "n \<noteq> ''.''" "n \<noteq> ''..''" "last n \<noteq> CHR ''/''" "hd n \<noteq> CHR ''/''"
  using assms unfolding plain_name_def by (auto dest: last_in_set hd_in_set)

lemma norm_segs_snoc_plain:
  "plain_name n \<Longrightarrow> norm_segs up [] (xs @ [n]) = norm_segs up [] xs @ [n]"
  by (simp add: norm_segs_append plain_nameD)

lemma norm_segs_snoc_skip:
  "s = [] \<or> s = ''.'' \<Longrightarrow> norm_segs up [] (xs @ [s]) = norm_segs up [] xs"
  by (auto simp add: norm_segs_append)

lemma norm_segs_no_dotdot:
  "''..'' \<notin> set acc \<Longrightarrow> ''..'' \<notin> set (norm_segs False acc xs)"
  by (induction False acc xs rule: norm_segs.induct) (auto split: list.splits)

lemma norm_segs_snoc_up:
  "norm_segs False [] (xs @ [''..'']) = butlast (norm_segs False [] xs)"
proof -
  have "''..'' \<notin> set (norm_segs False [] xs)" by (rule norm_segs_no_dotdot) simp
  then show ?thesis
    by (cases "norm_segs False [] xs" rule: rev_cases) (auto simp add: norm_segs_append)
qed

lemma path_normalize_abs:
  assumes "p \<noteq> []" "hd p = CHR ''/''" "last p \<noteq> CHR ''/''"
    and "norm_segs False [] (split_slash p) = ns" "join_slash ns \<noteq> []"
  shows "path_normalize p = CHR ''/'' # join_slash ns"
  using assms by (simp add: path_normalize_def Let_def)

lemma dir_path_join_ne:
  assumes "dir_path d"
  shows "join_slash (norm_segs False [] (split_slash d)) \<noteq> []"
  using dir_pathD(3,5)[OF assms] by (metis last.simps)

lemma path_join_plain:
  assumes "dir_path d" "plain_name n"
  shows "path_join d n = d @ CHR ''/'' # n"
proof -
  let ?ns = "norm_segs False [] (split_slash d)"
  have seg: "norm_segs False [] (split_slash (d @ CHR ''/'' # n)) = ?ns @ [n]"
    using assms(2) by (simp add: split_slash_append split_slash_plain plain_nameD norm_segs_snoc_plain)
  have d: "d = CHR ''/'' # join_slash ?ns" and ne: "?ns \<noteq> []"
    using dir_pathD[OF assms(1)] by auto
  have "path_normalize (d @ CHR ''/'' # n) = CHR ''/'' # join_slash (?ns @ [n])"
    using dir_pathD(1,2)[OF assms(1)] plain_nameD[OF assms(2)] ne
    by (intro path_normalize_abs seg) (simp_all add: join_slash_snoc)
  also have "\<dots> = d @ CHR ''/'' # n"
    using d ne by (simp add: join_slash_snoc)
  finally show ?thesis
    using dir_pathD(1)[OF assms(1)] plain_nameD(1)[OF assms(2)] by (simp add: path_join_def)
qed

lemma dir_path_child:
  assumes "dir_path d" "plain_name n"
  shows "dir_path (d @ CHR ''/'' # n)"
proof -
  have "path_normalize (d @ CHR ''/'' # n) = d @ CHR ''/'' # n"
    using path_join_plain[OF assms] dir_pathD(1)[OF assms(1)] plain_nameD(1)[OF assms(2)]
    by (simp add: path_join_def)
  then show ?thesis
    using dir_pathD(1,2)[OF assms(1)] plain_nameD[OF assms(2)] by (simp add: dir_path_def)
qed

lemma path_join_empty:
  assumes "dir_path d" "s = [] \<or> s = ''.''"
  shows "path_join d s = d"
proof -
  have n: "path_normalize d = d" using assms(1) by (simp add: dir_path_def)
  let ?ns = "norm_segs False [] (split_slash d)"
  have d: "d = CHR ''/'' # join_slash ?ns" and jne: "d \<noteq> []"
    using dir_pathD[OF assms(1)] by auto
  have seg: "norm_segs False [] (split_slash (d @ ''/.'')) = ?ns"
    by (simp add: split_slash_append norm_segs_snoc_skip)
  have "path_normalize (d @ ''/.'') = CHR ''/'' # join_slash ?ns"
    using dir_pathD(1,2)[OF assms(1)] dir_path_join_ne[OF assms(1)]
    by (intro path_normalize_abs seg) simp_all
  then show ?thesis using assms(2) n jne d by (auto simp add: path_join_def)
qed

lemma path_join_up:
  assumes "dir_path d" "plain_name m"
  shows "path_join (d @ CHR ''/'' # m) ''..'' = d"
proof -
  let ?ns = "norm_segs False [] (split_slash d)"
  have d: "d = CHR ''/'' # join_slash ?ns"
    using dir_pathD[OF assms(1)] by auto
  have m: "split_slash m = [m]"
    using assms(2) by (simp add: split_slash_plain plain_nameD)
  have "split_slash ((d @ CHR ''/'' # m) @ CHR ''/'' # ''..'') = (split_slash d @ [m]) @ [''..'']"
    unfolding split_slash_append m by simp
  then have seg: "norm_segs False [] (split_slash ((d @ CHR ''/'' # m) @ ''/..'')) = ?ns"
    using assms(2) by (simp only: norm_segs_snoc_up norm_segs_snoc_plain) simp
  have "path_normalize ((d @ CHR ''/'' # m) @ ''/..'') = CHR ''/'' # join_slash ?ns"
    using dir_pathD(1,2)[OF assms(1)] dir_path_join_ne[OF assms(1)]
    by (intro path_normalize_abs seg) simp_all
  then show ?thesis using d by (simp add: path_join_def)
qed

lemma path_basename_child:
  assumes "n \<noteq> []" "CHR ''/'' \<notin> set n"
  shows "path_basename (d @ CHR ''/'' # n) = n"
proof -
  have "hd (rev n) \<noteq> CHR ''/''" using assms by (metis hd_rev last_in_set)
  then have 1: "dropWhile (\<lambda>c. c = CHR ''/'') (rev n @ CHR ''/'' # rev d) = rev n @ CHR ''/'' # rev d"
    using assms(1) by (cases "rev n") auto
  have 2: "takeWhile (\<lambda>c. c \<noteq> CHR ''/'') (rev n @ CHR ''/'' # rev d) = rev n"
    using assms(2) by (subst takeWhile_append2) auto
  show ?thesis by (simp add: path_basename_def 1 2)
qed

lemma path_basename_plain:
  assumes "CHR ''/'' \<notin> set n"
  shows "path_basename n = n"
proof -
  have 1: "dropWhile (\<lambda>c. c = CHR ''/'') (rev n) = rev n"
    using assms by (cases "rev n") auto
  have 2: "takeWhile (\<lambda>c. c \<noteq> CHR ''/'') (rev n) = rev n"
    using assms by (auto simp add: takeWhile_eq_all_conv)
  show ?thesis by (simp add: path_basename_def 1 2)
qed

lemma path_basename_no_slash: "CHR ''/'' \<notin> set (path_basename p)"
  unfolding path_basename_def set_rev
  using set_takeWhileD by fastforce

lemma path_extname_cong:
  "path_basename p = path_basename q \<Longrightarrow> path_extname p = path_extname q"
  by (simp add: path_extname_def)

lemma path_extname_suffix:
  assumes "path_extname p \<noteq> []"
  shows "\<exists>pre. pre \<noteq> [] \<and> path_basename p = pre @ path_extname p"
proof -
  let ?c = "path_basename p"
  let ?a = "takeWhile (\<lambda>c. c \<noteq> CHR ''.'') (rev ?c)"
  let ?u = "dropWhile (\<lambda>c. c \<noteq> CHR ''.'') (rev ?c)"
  from assms have u: "?u \<noteq> []" "tl ?u \<noteq> []" and e: "path_extname p = CHR ''.'' # rev ?a"
    by (auto simp add: path_extname_def Let_def split: if_splits)
  have h: "hd ?u = CHR ''.''" using hd_dropWhile[OF u(1)] by simp
  have "rev (rev ?c) = rev (?a @ ?u)" by (simp only: takeWhile_dropWhile_id)
  then have "?c = rev ?u @ rev ?a" by (simp only: rev_append rev_rev_ident)
  moreover have "rev ?u = rev (tl ?u) @ [CHR ''.'']"
    using u(1) h by (cases ?u) auto
  ultimately have "?c = rev (tl ?u) @ path_extname p" using e by simp
  then show ?thesis using u(2) by (intro exI[of _ "rev (tl ?u)"]) simp
qed

lemma stem_eq:
  "stem p = (if path_extname p = [] then path_basename p
             else take (length (path_basename p) - length (path_extname p)) (path_basename p))"
proof (cases "path_extname p = []")
  case True
  then show ?thesis by (simp add: stem_def path_basename_ext_def)
next
  case False
  then obtain pre where pre: "pre \<noteq> []" "path_basename p = pre @ path_extname p"
    using path_extname_suffix by blast
  have "length (path_basename p)
          \<le> length (dropWhile (\<lambda>c. c = CHR ''/'') (rev p))"
    unfolding path_basename_def length_rev by (rule length_takeWhile_le)
  also have "\<dots> \<le> length (rev p)" by (rule length_dropWhile_le)
  finally have len: "length (path_basename p) \<le> length p" by simp
  have l1: "\<not> length p < length (path_extname p)" using pre len by simp
  have "length (path_extname p) < length (path_basename p)" using pre by simp
  then have l2: "path_extname p \<noteq> p" using len by auto
  have l3: "suffix (path_extname p) (path_basename p)" using pre by (simp add: suffix_def)
  have l4: "path_extname p \<noteq> path_basename p" using pre by simp
  show ?thesis using False l1 l2 l3 l4 by (simp add: stem_def path_basename_ext_def Let_def)
qed

lemma stem_cong: "path_basename p = path_basename q \<Longrightarrow> stem p = stem q"
  using path_extname_cong[of p q] by (simp add: stem_eq)

lemma stem_prefix: "\<exists>e. path_basename p = stem p @ e"
proof (cases "path_extname p = []")
  case True
  then show ?thesis by (simp add: stem_eq)
next
  case False
  let ?k = "length (path_basename p) - length (path_extname p)"
  have "path_basename p = take ?k (path_basename p) @ drop ?k (path_basename p)" by simp
  then show ?thesis using False unfolding stem_eq by (simp only: if_False) blast
qed

lemma stem_no_slash: "CHR ''/'' \<notin> set (stem p)"
proof -
  obtain e where "path_basename p = stem p @ e" using stem_prefix by blast
  then have "set (stem p) \<subseteq> set (path_basename p)" by simp
  then show ?thesis using path_basename_no_slash[of p] by blast
qed

lemma stem_ne: "path_basename p \<noteq> [] \<Longrightarrow> stem p \<noteq> []"
proof (cases "path_extname p = []")
  case True
  then show "path_basename p \<noteq> [] \<Longrightarrow> stem p \<noteq> []" by (simp add: stem_eq)
next
  case False
  then obtain pre where pre: "pre \<noteq> []" "path_basename p = pre @ path_extname p"
    using path_extname_suffix by blast
  then show "stem p \<noteq> []" using False by (simp add: stem_eq)
qed

lemma path_dirname_child:
  assumes "dir_path d" "n \<noteq> []" "CHR ''/'' \<notin> set n"
  shows "path_dirname (d @ CHR ''/'' # n) = d"
proof -
  obtain t where d: "d = CHR ''/'' # t" "t \<noteq> []"
    using dir_pathD(1,2,3)[OF assms(1)] by (cases d) (auto split: if_splits)
  have "hd (rev n) \<noteq> CHR ''/''" using assms by (metis hd_rev last_in_set)
  then have 1: "dropWhile (\<lambda>c. c = CHR ''/'') (rev n @ CHR ''/'' # rev t) = rev n @ CHR ''/'' # rev t"
    using assms(2) by (cases "rev n") auto
  have 2: "dropWhile (\<lambda>c. c \<noteq> CHR ''/'') (rev n @ CHR ''/'' # rev t) = CHR ''/'' # rev t"
    using assms(3) by (subst dropWhile_append2) auto
  show ?thesis using d by (simp add: path_dirname_def Let_def 1 2)
qed

section \<open>The directories of the module\<close>

lemma plain_name_literals:
  "plain_name ''temp_encoded''" "plain_name ''temp''" "plain_name ''storage''"
  "plain_name ''encoded''" "plain_name ''videos''"
  by (simp_all add: plain_name_def)

lemma layout:
  assumes "dir_path (dirname env)"
  shows "tempEncodedDir env = dirname env @ ''/temp_encoded''"
    and "storageDir env = dirname env @ ''/storage''"
    and "encodedDir env = dirname env @ ''/storage/encoded''"
  using path_join_plain[OF assms] plain_name_literals
  by (simp_all add: tempEncodedDir_def storageDir_def encodedDir_def)

lemma layout_dir_path:
  assumes "dir_path (dirname env)"
  shows "dir_path (tempEncodedDir env)" "dir_path (storageDir env)" "dir_path (encodedDir env)"
proof -
  show "dir_path (tempEncodedDir env)"
    using dir_path_child[OF assms plain_name_literals(1)] layout(1)[OF assms] by simp
  show s: "dir_path (storageDir env)"
    using dir_path_child[OF assms plain_name_literals(3)] layout(2)[OF assms] by simp
  show "dir_path (encodedDir env)"
    using dir_path_child[OF s plain_name_literals(4)] by (simp add: encodedDir_def)
qed

lemma layout_dirname:
  assumes "dir_path (dirname env)"
  shows "path_dirname (tempEncodedDir env) = dirname env"
    and "path_dirname (storageDir env) = dirname env"
    and "path_dirname (encodedDir env) = storageDir env"
  using path_dirname_child[OF assms, of "''temp_encoded''"]
    path_dirname_child[OF assms, of "''storage''"]
    path_dirname_child[OF layout_dir_path(2)[OF assms], of "''encoded''"]
    layout[OF assms]
  by (simp_all add: encodedDir_def)

lemma layout_distinct:
  assumes "dir_path (dirname env)"
  shows "tempEncodedDir env \<noteq> dirname env" "storageDir env \<noteq> dirname env"
    "encodedDir env \<noteq> dirname env" "tempEncodedDir env \<noteq> storageDir env"
    "tempEncodedDir env \<noteq> encodedDir env" "storageDir env \<noteq> encodedDir env"
  by (simp_all add: layout[OF assms])

lemma layout_child_neq:
  assumes "dir_path (dirname env)"
  shows "tempEncodedDir env @ CHR ''/'' # x \<noteq> dirname env"
    "tempEncodedDir env @ CHR ''/'' # x \<noteq> tempEncodedDir env"
    "tempEncodedDir env @ CHR ''/'' # x \<noteq> storageDir env"
    "tempEncodedDir env @ CHR ''/'' # x \<noteq> encodedDir env"
    "tempEncodedDir env @ CHR ''/'' # x \<noteq> encodedDir env @ CHR ''/'' # y"
    "encodedDir env @ CHR ''/'' # y \<noteq> dirname env"
    "encodedDir env @ CHR ''/'' # y \<noteq> tempEncodedDir env"
    "encodedDir env @ CHR ''/'' # y \<noteq> storageDir env"
    "encodedDir env @ CHR ''/'' # y \<noteq> encodedDir env"
  by (simp_all add: layout[OF assms])

lemma layout_in_storage:
  assumes "dir_path (dirname env)"
  shows "in_storage env (encodedDir env @ CHR ''/'' # y)"
    "in_storage env (encodedDir env)"
    "\<not> in_storage env (tempEncodedDir env @ CHR ''/'' # x)"
    "\<not> in_storage env (tempEncodedDir env)"
    "\<not> in_storage env (storageDir env)"
    "\<not> in_storage env (dirname env)"
proof -
  have a: "\<not> prefix (d @ c # r) d" for d r :: string and c
    by (auto simp add: prefix_def)
  show "in_storage env (encodedDir env @ CHR ''/'' # y)" "in_storage env (encodedDir env)"
    "\<not> in_storage env (tempEncodedDir env @ CHR ''/'' # x)"
    "\<not> in_storage env (tempEncodedDir env)"
    by (simp_all add: layout[OF assms] in_storage_def)
  show "\<not> in_storage env (storageDir env)" by (simp add: in_storage_def a)
  show "\<not> in_storage env (dirname env)" 
    using a[of "dirname env"] by (simp add: in_storage_def layout[OF assms])
qed

section \<open>Facts about the file system\<close>

lemma mkdirSync_recursive_child:
  assumes "dir_path d" "plain_name n" "fs d = Some Dir"
  shows "mkdirSync_recursive fs (d @ CHR ''/'' # n) =
           (case fs (d @ CHR ''/'' # n) of
              Some Dir \<Rightarrow> Inr fs
            | Some (File c) \<Rightarrow> Inl EEXIST
            | None \<Rightarrow> Inr (fs(d @ CHR ''/'' # n \<mapsto> Dir)))"
proof -
  have p: "path_dirname (d @ CHR ''/'' # n) = d"
    using path_dirname_child[OF assms(1)] plain_nameD[OF assms(2)] by simp
  have d: "mkdirSync_recursive fs d = Inr fs"
    using assms(3) by (subst mkdirSync_recursive.simps) simp
  show ?thesis
    by (subst mkdirSync_recursive.simps) (simp add: p d split: option.splits node.splits)
qed

lemma ensure_dir_child:
  assumes "dir_path d" "plain_name n" "fs d = Some Dir"
  shows "(if \<not> existsSync fs (d @ CHR ''/'' # n)
          then mkdirSync_recursive fs (d @ CHR ''/'' # n) else Inr fs) =
         Inr (if fs (d @ CHR ''/'' # n) = None then fs(d @ CHR ''/'' # n \<mapsto> Dir) else fs)"
  by (simp add: existsSync_def mkdirSync_recursive_child[of d n fs, OF assms])

lemma ensure_tempEncodedDir:
  assumes "dir_path (dirname env)" "fs (dirname env) = Some Dir"
  shows "(if \<not> existsSync fs (tempEncodedDir env)
          then mkdirSync_recursive fs (tempEncodedDir env) else Inr fs) =
         Inr (if fs (tempEncodedDir env) = None then fs(tempEncodedDir env \<mapsto> Dir) else fs)"
  unfolding layout(1)[OF assms(1)]
  by (rule ensure_dir_child[of "dirname env" "''temp_encoded''" fs,
        OF assms(1) plain_name_literals(1) assms(2)])

lemma readFile_SomeD:
  "readFile fs p = Some c \<Longrightarrow> fs p = Some (File c) \<and> p \<noteq> [] \<and> last p \<noteq> CHR ''/''"
  by (auto simp add: readFile_def split: if_splits option.splits node.splits)

lemma readFile_upd_other: "q \<noteq> p \<Longrightarrow> readFile (fs(q := v)) p = readFile fs p"
  by (simp add: readFile_def)

lemma readFile_upd_Dir: "fs q = None \<Longrightarrow> readFile (fs(q \<mapsto> Dir)) p = readFile fs p"
  by (simp add: readFile_def)

lemma writeFile_InrD:
  "writeFile fs p b = Inr fs' \<Longrightarrow>
     fs' = fs(p \<mapsto> File b) \<and> fs p \<noteq> Some Dir \<and> fs (path_dirname p) = Some Dir"
  by (auto simp add: writeFile_def split: if_splits)

lemma writeFile_child:
  assumes "dir_path d" "x \<noteq> []" "CHR ''/'' \<notin> set x"
  shows "writeFile fs (d @ CHR ''/'' # x) b =
           (if fs (d @ CHR ''/'' # x) = Some Dir then Inl EISDIR
            else if fs d \<noteq> Some Dir then Inl ENOENT
            else Inr (fs(d @ CHR ''/'' # x \<mapsto> File b)))"
proof -
  have "last x \<noteq> CHR ''/''" using assms(2,3) last_in_set by fastforce
  then show ?thesis
    using path_dirname_child[OF assms] assms(2) by (simp add: writeFile_def)
qed

lemma copyFile_InrD:
  "copyFile fs src dest = Inr fs' \<Longrightarrow>
     \<exists>c. readFile fs src = Some c \<and> fs' = fs(dest \<mapsto> File c) \<and> fs dest \<noteq> Some Dir
         \<and> fs (path_dirname dest) = Some Dir"
  by (auto simp add: copyFile_def split: option.splits sum.splits if_splits
      dest: writeFile_InrD)

lemma copyFile_InlD:
  "copyFile fs src dest = Inl (e, fs') \<Longrightarrow> \<forall>p. p \<noteq> dest \<longrightarrow> fs' p = fs p"
  by (auto simp add: copyFile_def split: option.splits sum.splits if_splits)

lemma unlinkSync_InrD:
  "unlinkSync fs p = Inr fs' \<Longrightarrow> fs' = fs(p := None) \<and> (\<exists>c. fs p = Some (File c))"
  by (auto simp add: unlinkSync_def split: option.splits node.splits)

lemma unlinkSync_File: "fs p = Some (File c) \<Longrightarrow> unlinkSync fs p = Inr (fs(p := None))"
  by (simp add: unlinkSync_def)

section \<open>Fetching the original (lines 103 to 107)\<close>

lemma localVideoPath_cases:
  assumes "dir_path (dirname env)"
  shows "(plain_name (path_basename k) \<and>
            localVideoPath env k = tempEncodedDir env @ CHR ''/'' # path_basename k)
         \<or> (\<not> plain_name (path_basename k) \<and> localVideoPath env k = tempEncodedDir env)
         \<or> (\<not> plain_name (path_basename k) \<and> localVideoPath env k = dirname env)"
proof -
  note t = layout_dir_path(1)[OF assms]
  consider "path_basename k = [] \<or> path_basename k = ''.''" | "path_basename k = ''..''"
    | "plain_name (path_basename k)"
    using path_basename_no_slash[of k] by (auto simp add: plain_name_def)
  then show ?thesis
  proof cases
    case 1
    then have "\<not> plain_name (path_basename k)" by (auto simp add: plain_name_def)
    then show ?thesis using path_join_empty[OF t 1] by (simp add: localVideoPath_def)
  next
    case 2
    then have "\<not> plain_name (path_basename k)" by (auto simp add: plain_name_def)
    moreover have "localVideoPath env k = dirname env"
      using path_join_up[OF assms plain_name_literals(1)] layout(1)[OF assms] 2
      by (simp add: localVideoPath_def)
    ultimately show ?thesis by simp
  next
    case 3
    then show ?thesis using path_join_plain[OF t 3] by (simp add: localVideoPath_def)
  qed
qed

lemma fetch_InrD:
  assumes "dir_path (dirname env)" "fs (dirname env) = Some Dir"
    and "processVideo_fetch env fs k = Inr fs2"
  shows "\<exists>c. blob env fs k = Some c
           \<and> fs2 = (if fs (tempEncodedDir env) = None then fs(tempEncodedDir env \<mapsto> Dir) else fs)
                     (localVideoPath env k \<mapsto> File c)
           \<and> ((plain_name (path_basename k)
                 \<and> localVideoPath env k = tempEncodedDir env @ CHR ''/'' # path_basename k
                 \<and> fs2 (tempEncodedDir env) = Some Dir)
               \<or> (localVideoPath env k = tempEncodedDir env))"
proof -
  let ?T = "tempEncodedDir env" and ?L = "localVideoPath env k"
  let ?fs1 = "if fs ?T = None then fs(?T \<mapsto> Dir) else fs"
  from assms(3) obtain p where "downloadFromS3 env ?fs1 k ?L = Inr (p, fs2)"
    unfolding processVideo_fetch_def Let_def ensure_tempEncodedDir[of env fs, OF assms(1,2)]
    by (auto split: sum.splits)
  then have "copyFile ?fs1 (path_join (storageDir env) k) ?L = Inr fs2"
    by (auto simp add: downloadFromS3_def Let_def split: sum.splits)
  from copyFile_InrD[OF this] obtain c where
    c: "readFile ?fs1 (path_join (storageDir env) k) = Some c"
    and fs2: "fs2 = ?fs1(?L \<mapsto> File c)" and nd: "?fs1 ?L \<noteq> Some Dir"
    and par: "?fs1 (path_dirname ?L) = Some Dir" by blast
  have b: "blob env fs k = Some c"
    using c by (auto simp add: blob_def readFile_upd_Dir split: if_splits)
  have d: "?fs1 (dirname env) = Some Dir" using assms(2) by simp
  from localVideoPath_cases[OF assms(1), of k]
  have "(plain_name (path_basename k) \<and> ?L = ?T @ CHR ''/'' # path_basename k
          \<and> fs2 ?T = Some Dir) \<or> ?L = ?T"
  proof (elim disjE conjE)
    assume pl: "plain_name (path_basename k)" and l: "?L = ?T @ CHR ''/'' # path_basename k"
    have "path_dirname ?L = ?T"
      using path_dirname_child[OF layout_dir_path(1)[OF assms(1)]] plain_nameD[OF pl] l by simp
    then have "?fs1 ?T = Some Dir" using par by simp
    then have "fs2 ?T = Some Dir" using fs2 l by simp
    then show ?thesis using pl l by simp
  next
    assume "?L = ?T" then show ?thesis by simp
  next
    assume "?L = dirname env"
    then show ?thesis using nd d by simp
  qed
  then show ?thesis using b fs2 by blast
qed

section \<open>The conversions (line 108)\<close>

lemma outputPath_shape:
  assumes "dir_path (dirname env)" "path_basename inp \<noteq> []" "valid_format f"
  shows "plain_name (stem inp @ CHR ''.'' # f)"
    and "encodeVideo_outputPath env inp f =
           tempEncodedDir env @ CHR ''/'' # (stem inp @ CHR ''.'' # f)"
proof -
  have s: "stem inp \<noteq> []" using stem_ne[OF assms(2)] .
  have f: "f \<noteq> []" "CHR ''/'' \<notin> set f" using assms(3) by (simp_all add: valid_format_def)
  have len: "3 \<le> length (stem inp @ CHR ''.'' # f)"
    using s f(1) by (cases "stem inp"; cases f) simp_all
  have "stem inp @ CHR ''.'' # f \<noteq> ''.''"
  proof
    assume "stem inp @ CHR ''.'' # f = ''.''"
    then have "length (stem inp @ CHR ''.'' # f) = 1" by simp
    then show False using len by simp
  qed
  moreover have "stem inp @ CHR ''.'' # f \<noteq> ''..''"
  proof
    assume "stem inp @ CHR ''.'' # f = ''..''"
    then have "length (stem inp @ CHR ''.'' # f) = 2" by simp
    then show False using len by simp
  qed
  ultimately show p: "plain_name (stem inp @ CHR ''.'' # f)"
    using stem_no_slash[of inp] f(2) by (simp add: plain_name_def)
  show "encodeVideo_outputPath env inp f =
           tempEncodedDir env @ CHR ''/'' # (stem inp @ CHR ''.'' # f)"
    using path_join_plain[OF layout_dir_path(1)[OF assms(1)] p]
    by (simp add: encodeVideo_outputPath_def stem_def Let_def)
qed

lemma map_encodeVideo_exists:
  assumes "fs (tempEncodedDir env) \<noteq> None"
  shows "map_encodeVideo env fs inp fmts =
           (map (\<lambda>f. run_ffmpeg env fs inp (encodeVideo_outputPath env inp f)) fmts, fs)"
  using assms by (induction fmts) (auto simp add: encodeVideo_def existsSync_def Let_def)

lemma first_rejection_None_iff:
  "first_rejection rs = None \<longleftrightarrow> (\<forall>r\<in>set rs. \<exists>x. r = Inr x)"
  by (induction rs rule: first_rejection.induct) auto

lemma first_rejection_map_Some:
  "f \<in> set fmts \<Longrightarrow> g f = Inl e \<Longrightarrow> \<exists>e'. first_rejection (map g fmts) = Some e'"
  using first_rejection_None_iff[of "map g fmts"] by (cases "first_rejection (map g fmts)") auto

lemma set_fulfilled: "x \<in> set (fulfilled rs) \<longleftrightarrow> Inr x \<in> set rs"
  by (induction rs rule: fulfilled.induct) auto

lemma fulfilled_map_fst:
  "\<forall>f\<in>set fmts. \<exists>b. g f = Inr (h f, b) \<Longrightarrow> map fst (fulfilled (map g fmts)) = map h fmts"
  by (induction fmts) auto

lemma zip_filter_early:
  "map snd (filter (\<lambda>fr. early (fst fr)) (zip fmts (map g fmts))) = map g (filter early fmts)"
  by (induction fmts) auto

lemma fold_settle_other: "q \<notin> fst ` set ts \<Longrightarrow> fold settle ts fs q = fs q"
proof (induction ts arbitrary: fs)
  case Nil
  then show ?case by simp
next
  case (Cons t ts)
  have "fold settle (t # ts) fs q = fold settle ts (settle t fs) q" by simp
  also have "\<dots> = settle t fs q" using Cons by simp
  also have "\<dots> = fs q" using Cons.prems by (simp add: settle_def)
  finally show ?case .
qed

lemma fold_settle_hit:
  assumes "(p, b) \<in> set ts" "\<forall>b'. (p, b') \<in> set ts \<longrightarrow> b' = b"
  shows "fold settle ts fs p = Some (File b)"
  using assms
proof (induction ts arbitrary: fs)
  case Nil
  then show ?case by simp
next
  case (Cons t ts)
  show ?case
  proof (cases "(p, b) \<in> set ts")
    case True
    have "\<forall>b'. (p, b') \<in> set ts \<longrightarrow> b' = b" using Cons.prems(2) by simp
    then have "fold settle ts (settle t fs) p = Some (File b)"
      using Cons.IH[OF True] by blast
    then show ?thesis by simp
  next
    case False
    then have t: "t = (p, b)" using Cons.prems(1) by simp
    have "p \<notin> fst ` set ts" using False Cons.prems(2) by force
    then have "fold settle ts (settle t fs) p = settle t fs p"
      by (rule fold_settle_other)
    moreover have "settle t fs p = Some (File b)" using t by (simp add: settle_def)
    ultimately show ?thesis by simp
  qed
qed

lemma run_ffmpeg_InrD:
  "run_ffmpeg env fs inp out = Inr (p, b) \<Longrightarrow>
     p = out \<and> (\<exists>c. readFile fs inp = Some c \<and> ffmpeg env inp c out = Some b)
     \<and> fs out \<noteq> Some Dir \<and> fs (path_dirname out) = Some Dir"
  by (auto simp add: run_ffmpeg_def split: option.splits sum.splits dest: writeFile_InrD)

lemma encode_InrD:
  assumes "fs (tempEncodedDir env) \<noteq> None"
    and "processVideo_encode env early fs inp = Inr (vs, fs4)"
  shows "vs = map (encodeVideo_outputPath env inp) (outputFormats env)"
    and "\<forall>f\<in>set (outputFormats env). \<exists>c b. readFile fs inp = Some c
           \<and> ffmpeg env inp c (encodeVideo_outputPath env inp f) = Some b
           \<and> fs (path_dirname (encodeVideo_outputPath env inp f)) = Some Dir
           \<and> fs4 (encodeVideo_outputPath env inp f) = Some (File b)"
    and "\<forall>q. q \<notin> encodeVideo_outputPath env inp ` set (outputFormats env) \<longrightarrow> fs4 q = fs q"
proof -
  let ?O = "encodeVideo_outputPath env inp"
  let ?g = "\<lambda>f. run_ffmpeg env fs inp (?O f)"
  let ?rs = "map ?g (outputFormats env)"
  from assms(2) have none: "first_rejection ?rs = None"
    and vs: "vs = map fst (fulfilled ?rs)" and fs4: "fs4 = fold settle (fulfilled ?rs) fs"
    unfolding processVideo_encode_def map_encodeVideo_exists[of fs env, OF assms(1)]
    by (auto simp add: Promise_all_def split: option.splits)
  have all: "\<forall>f\<in>set (outputFormats env). \<exists>b. ?g f = Inr (?O f, b)"
  proof
    fix f assume "f \<in> set (outputFormats env)"
    then obtain x where "?g f = Inr x" using none first_rejection_None_iff[of ?rs] by auto
    then show "\<exists>b. ?g f = Inr (?O f, b)" using run_ffmpeg_InrD[of env fs inp "?O f" "fst x" "snd x"]
      by (cases x) auto
  qed
  show "vs = map ?O (outputFormats env)" using vs fulfilled_map_fst[OF all] by simp
  show "\<forall>f\<in>set (outputFormats env). \<exists>c b. readFile fs inp = Some c
           \<and> ffmpeg env inp c (?O f) = Some b \<and> fs (path_dirname (?O f)) = Some Dir
           \<and> fs4 (?O f) = Some (File b)"
  proof
    fix f assume f: "f \<in> set (outputFormats env)"
    then obtain b where b: "?g f = Inr (?O f, b)" using all by blast
    from run_ffmpeg_InrD[OF b] obtain c where c: "readFile fs inp = Some c"
      "ffmpeg env inp c (?O f) = Some b" "fs (path_dirname (?O f)) = Some Dir" by blast
    have mem: "(?O f, b) \<in> set (fulfilled ?rs)" using f b by (force simp add: set_fulfilled)
    have uniq: "\<forall>b'. (?O f, b') \<in> set (fulfilled ?rs) \<longrightarrow> b' = b"
    proof (intro allI impI)
      fix b' assume "(?O f, b') \<in> set (fulfilled ?rs)"
      then obtain h where "?g h = Inr (?O f, b')" by (auto simp add: set_fulfilled)
      from run_ffmpeg_InrD[OF this] c show "b' = b" by auto
    qed
    show "\<exists>c b. readFile fs inp = Some c \<and> ffmpeg env inp c (?O f) = Some b
            \<and> fs (path_dirname (?O f)) = Some Dir \<and> fs4 (?O f) = Some (File b)"
      using c fold_settle_hit[OF mem uniq, of fs] fs4 by simp
  qed
  show "\<forall>q. q \<notin> ?O ` set (outputFormats env) \<longrightarrow> fs4 q = fs q"
  proof (intro allI impI)
    fix q assume q: "q \<notin> ?O ` set (outputFormats env)"
    have "map fst (fulfilled ?rs) = map ?O (outputFormats env)"
      using fulfilled_map_fst[OF all] .
    then have "set (map fst (fulfilled ?rs)) = set (map ?O (outputFormats env))" by simp
    then have "fst ` set (fulfilled ?rs) = ?O ` set (outputFormats env)"
      by (simp only: set_map)
    then show "fs4 q = fs q" using q fs4 fold_settle_other[of q "fulfilled ?rs" fs] by simp
  qed
qed

lemma encode_InlD:
  assumes "fs (tempEncodedDir env) \<noteq> None"
    and "processVideo_encode env early fs inp = Inl (e, fs3)"
  shows "\<forall>q. q \<notin> encodeVideo_outputPath env inp ` set (outputFormats env) \<longrightarrow> fs3 q = fs q"
    and "\<forall>f\<in>set (outputFormats env). \<forall>p b. early f
           \<and> run_ffmpeg env fs inp (encodeVideo_outputPath env inp f) = Inr (p, b)
           \<longrightarrow> fs3 p = Some (File b)"
proof -
  let ?O = "encodeVideo_outputPath env inp"
  let ?g = "\<lambda>f. run_ffmpeg env fs inp (?O f)"
  let ?ts = "fulfilled (map ?g (filter early (outputFormats env)))"
  from assms(2) have fs3: "fs3 = fold settle ?ts fs"
    unfolding processVideo_encode_def map_encodeVideo_exists[of fs env, OF assms(1)]
    by (auto simp add: Promise_all_def zip_filter_early split: option.splits)
  have ts: "(p, b) \<in> set ?ts \<Longrightarrow> p \<in> ?O ` set (outputFormats env)
              \<and> (\<exists>c. readFile fs inp = Some c \<and> ffmpeg env inp c p = Some b)" for p b
  proof -
    assume "(p, b) \<in> set ?ts"
    then obtain h where h: "h \<in> set (outputFormats env)" "?g h = Inr (p, b)"
      by (auto simp add: set_fulfilled)
    from run_ffmpeg_InrD[OF h(2)] h(1) show ?thesis by auto
  qed
  show "\<forall>q. q \<notin> ?O ` set (outputFormats env) \<longrightarrow> fs3 q = fs q"
  proof (intro allI impI)
    fix q assume "q \<notin> ?O ` set (outputFormats env)"
    then have "q \<notin> fst ` set ?ts" using ts by force
    then show "fs3 q = fs q" using fs3 fold_settle_other[of q ?ts fs] by simp
  qed
  show "\<forall>f\<in>set (outputFormats env). \<forall>p b. early f \<and> ?g f = Inr (p, b)
          \<longrightarrow> fs3 p = Some (File b)"
  proof (intro ballI allI impI)
    fix f p b assume f: "f \<in> set (outputFormats env)" and "early f \<and> ?g f = Inr (p, b)"
    then have mem: "(p, b) \<in> set ?ts" by (force simp add: set_fulfilled)
    have uniq: "\<forall>b'. (p, b') \<in> set ?ts \<longrightarrow> b' = b"
    proof (intro allI impI)
      fix b' assume "(p, b') \<in> set ?ts"
      from ts[OF this] ts[OF mem] show "b' = b" by auto
    qed
    show "fs3 p = Some (File b)" using fold_settle_hit[OF mem uniq] fs3 by simp
  qed
qed

lemma encode_rejects:
  assumes "fs (tempEncodedDir env) \<noteq> None" "f \<in> set (outputFormats env)"
    and "run_ffmpeg env fs inp (encodeVideo_outputPath env inp f) = Inl e"
  shows "\<exists>e' fs3. processVideo_encode env early fs inp = Inl (e', fs3)"
  unfolding processVideo_encode_def map_encodeVideo_exists[of fs env, OF assms(1)]
  using first_rejection_map_Some[OF assms(2), of "\<lambda>f. run_ffmpeg env fs inp (encodeVideo_outputPath env inp f)" e] assms(3)
  by (auto simp add: Promise_all_def)

section \<open>Uploading: \<open>uploadToS3\<close> and the loop of lines 110 to 113\<close>

lemma path_join_two:
  assumes "dir_path d" "plain_name m" "plain_name x"
  shows "path_join d (m @ CHR ''/'' # x) = (d @ CHR ''/'' # m) @ CHR ''/'' # x"
proof -
  have "path_join d (m @ CHR ''/'' # x) = path_normalize (d @ CHR ''/'' # m @ CHR ''/'' # x)"
    using dir_pathD(1)[OF assms(1)] by (simp add: path_join_def)
  also have "\<dots> = path_join (d @ CHR ''/'' # m) x"
    using plain_nameD(1)[OF assms(3)] by (simp add: path_join_def)
  also have "\<dots> = (d @ CHR ''/'' # m) @ CHR ''/'' # x"
    by (rule path_join_plain[OF dir_path_child[OF assms(1,2)] assms(3)])
  finally show ?thesis .
qed

lemma ensure_bucket_dir:
  assumes "dir_path (dirname env)" "fs (dirname env) = Some Dir" "plain_name m"
    and "(if \<not> existsSync fs (storageDir env @ CHR ''/'' # m)
          then mkdirSync_recursive fs (storageDir env @ CHR ''/'' # m) else Inr fs) = Inr fs1"
  shows "fs1 (storageDir env @ CHR ''/'' # m) \<noteq> None"
    and "\<forall>q. fs1 q = fs q \<or> (fs q = None \<and> fs1 q = Some Dir
              \<and> (q = storageDir env \<or> q = storageDir env @ CHR ''/'' # m))"
proof -
  let ?S = "storageDir env" and ?X = "storageDir env @ CHR ''/'' # m"
  note s = layout_dir_path(2)[OF assms(1)]
  have both: "fs1 ?X \<noteq> None \<and> (\<forall>q. fs1 q = fs q \<or> (fs q = None \<and> fs1 q = Some Dir
              \<and> (q = ?S \<or> q = ?X)))"
  proof (cases "fs ?X = None")
    case False
    then show ?thesis using assms(4) by (auto simp add: existsSync_def)
  next
    case True
    have p: "path_dirname ?X = ?S"
      using path_dirname_child[OF s] plain_nameD[OF assms(3)] by simp
    have S: "mkdirSync_recursive fs ?S =
               (case fs ?S of Some Dir \<Rightarrow> Inr fs | Some (File c) \<Rightarrow> Inl EEXIST
                | None \<Rightarrow> Inr (fs(?S \<mapsto> Dir)))"
      unfolding layout(2)[OF assms(1)]
      by (rule mkdirSync_recursive_child[of "dirname env" "''storage''" fs,
            OF assms(1) plain_name_literals(3) assms(2)])
    have "mkdirSync_recursive fs ?X = Inr fs1"
      using assms(4) True by (simp add: existsSync_def)
    then have "(case mkdirSync_recursive fs ?S of Inl e \<Rightarrow> Inl ENOTDIR
                | Inr fs' \<Rightarrow> Inr (fs'(?X \<mapsto> Dir))) = Inr fs1"
      using True by (subst (asm) mkdirSync_recursive.simps) (simp add: p)
    then have "(fs ?S = Some Dir \<and> fs1 = fs(?X \<mapsto> Dir))
             \<or> (fs ?S = None \<and> fs1 = fs(?S \<mapsto> Dir, ?X \<mapsto> Dir))"
      unfolding S by (auto split: option.splits node.splits sum.splits)
    then show ?thesis using True by (auto split: if_splits)
  qed
  show "fs1 ?X \<noteq> None" using both by blast
  show "\<forall>q. fs1 q = fs q \<or> (fs q = None \<and> fs1 q = Some Dir \<and> (q = ?S \<or> q = ?X))"
    using both by blast
qed

lemma readFile_grown:
  assumes "\<forall>q. fs1 q = fs q \<or> (fs q = None \<and> fs1 q = Some Dir \<and> P q)"
  shows "readFile fs1 v = readFile fs v"
proof -
  have "fs1 v = fs v \<or> (fs v = None \<and> fs1 v = Some Dir)" using assms by blast
  then show ?thesis by (auto simp add: readFile_def)
qed

lemma uploadToS3_InrD:
  assumes "dir_path (dirname env)" "fs (dirname env) = Some Dir"
    and "plain_name m" "plain_name x"
    and "uploadToS3 env fs v (m @ CHR ''/'' # x) = Inr fs'"
  shows "\<exists>c. readFile fs v = Some c
           \<and> fs' ((storageDir env @ CHR ''/'' # m) @ CHR ''/'' # x) = Some (File c)"
    and "\<forall>q. q \<noteq> (storageDir env @ CHR ''/'' # m) @ CHR ''/'' # x \<longrightarrow>
           fs' q = fs q \<or> (fs q = None \<and> fs' q = Some Dir
              \<and> (q = storageDir env \<or> q = storageDir env @ CHR ''/'' # m))"
    and "fs' (storageDir env @ CHR ''/'' # m) = Some Dir"
proof -
  let ?S = "storageDir env" and ?X = "storageDir env @ CHR ''/'' # m"
  let ?dest = "?X @ CHR ''/'' # x"
  note s = layout_dir_path(2)[OF assms(1)]
  have dest: "path_join ?S (m @ CHR ''/'' # x) = ?dest"
    by (rule path_join_two[OF s assms(3,4)])
  have dir: "path_dirname ?dest = ?X"
    using path_dirname_child[OF dir_path_child[OF s assms(3)]] plain_nameD[OF assms(4)] by simp
  from assms(5) obtain fs1 where
    fs1: "(if \<not> existsSync fs ?X then mkdirSync_recursive fs ?X else Inr fs) = Inr fs1"
    and cp: "copyFile fs1 v ?dest = Inr fs'"
    unfolding uploadToS3_def Let_def dest dir by (auto split: sum.splits)
  note g = ensure_bucket_dir(2)[of env fs m fs1, OF assms(1,2,3) fs1]
  from copyFile_InrD[OF cp] obtain c where c: "readFile fs1 v = Some c"
    and fs': "fs' = fs1(?dest \<mapsto> File c)" and par: "fs1 ?X = Some Dir"
    unfolding dir by blast
  show "fs' ?X = Some Dir" using par fs' by simp
  have "readFile fs v = Some c" using readFile_grown[OF g] c by simp
  then show "\<exists>c. readFile fs v = Some c \<and> fs' ?dest = Some (File c)" using fs' by simp
  show "\<forall>q. q \<noteq> ?dest \<longrightarrow>
           fs' q = fs q \<or> (fs q = None \<and> fs' q = Some Dir \<and> (q = ?S \<or> q = ?X))"
    using g fs' by simp
qed

lemma upload_loop_InrD:
  assumes "dir_path (dirname env)" "fs (dirname env) = Some Dir"
    and "\<forall>x\<in>set xs. plain_name x"
    and "upload_loop env fs (map (\<lambda>x. tempEncodedDir env @ CHR ''/'' # x) xs) = Inr fs'"
  shows "(\<forall>x\<in>set xs. \<exists>c. fs (tempEncodedDir env @ CHR ''/'' # x) = Some (File c)
             \<and> fs' (encodedDir env @ CHR ''/'' # x) = Some (File c))
       \<and> (\<forall>x\<in>set xs. fs' (tempEncodedDir env @ CHR ''/'' # x) = None)
       \<and> (\<forall>q. q \<notin> (\<lambda>x. encodedDir env @ CHR ''/'' # x) ` set xs \<longrightarrow>
               q \<notin> (\<lambda>x. tempEncodedDir env @ CHR ''/'' # x) ` set xs \<longrightarrow>
               fs' q = fs q \<or> (fs q = None \<and> fs' q = Some Dir
                  \<and> (q = storageDir env \<or> q = encodedDir env)))
       \<and> distinct xs \<and> (xs \<noteq> [] \<longrightarrow> fs' (encodedDir env) = Some Dir)"
  using assms(2,3,4)
proof (induction xs arbitrary: fs)
  case Nil
  then show ?case by simp
next
  case (Cons x xs)
  let ?T = "\<lambda>y. tempEncodedDir env @ CHR ''/'' # y"
  let ?E = "\<lambda>y. encodedDir env @ CHR ''/'' # y"
  note nq = layout_child_neq[OF assms(1)]
  note nq' = nq(5)[THEN not_sym]
  have px: "plain_name x" and pxs: "\<forall>y\<in>set xs. plain_name y" using Cons.prems(2) by simp_all
  have bn: "path_basename (?T x) = x"
    using path_basename_child plain_nameD[OF px] by simp
  from Cons.prems(3) obtain fs1 fs2 where
    up: "uploadToS3 env fs (?T x) (''encoded'' @ CHR ''/'' # x) = Inr fs1"
    and un: "unlinkSync fs1 (?T x) = Inr fs2"
    and rest: "upload_loop env fs2 (map ?T xs) = Inr fs'"
    by (auto simp add: bn split: sum.splits)
  from uploadToS3_InrD[OF assms(1) Cons.prems(1) plain_name_literals(4) px up]
  obtain c where c: "readFile fs (?T x) = Some c" and d1: "fs1 (?E x) = Some (File c)"
    and f1: "\<forall>q. q \<noteq> ?E x \<longrightarrow> fs1 q = fs q \<or> (fs q = None \<and> fs1 q = Some Dir
              \<and> (q = storageDir env \<or> q = encodedDir env))"
    and e1: "fs1 (encodedDir env) = Some Dir"
    by (auto simp add: encodedDir_def)
  from unlinkSync_InrD[OF un] have fs2: "fs2 = fs1(?T x := None)" by simp
  have D2: "fs2 (dirname env) = Some Dir"
    using f1 Cons.prems(1) fs2 nq(1)[of x] nq(6)[of x] by (metis fun_upd_apply option.distinct(1))
  note IH = Cons.IH[OF D2 pxs rest]
  have x_notin: "x \<notin> set xs"
  proof
    assume "x \<in> set xs"
    then obtain c' where "fs2 (?T x) = Some (File c')" using IH by blast
    then show False using fs2 by simp
  qed
  have head: "fs (?T x) = Some (File c) \<and> fs' (?E x) = Some (File c)"
  proof -
    have "fs2 (?E x) = Some (File c)" using d1 fs2 nq(5)[of x x] by simp
    moreover have "?E x \<notin> ?E ` set xs" "?E x \<notin> ?T ` set xs"
      using x_notin nq' by auto
    ultimately have "fs' (?E x) = Some (File c)" using IH by (metis option.distinct(1))
    then show ?thesis using readFile_SomeD[OF c] by simp
  qed
  have tail: "\<exists>c. fs (?T y) = Some (File c) \<and> fs' (?E y) = Some (File c)" if "y \<in> set xs" for y
  proof -
    from that obtain c' where c': "fs2 (?T y) = Some (File c')" "fs' (?E y) = Some (File c')"
      using IH by blast
    have "fs1 (?T y) = Some (File c')" using c'(1) fs2 by (auto split: if_splits)
    moreover have "?T y \<noteq> ?E x" using nq(5) by simp
    ultimately have "fs (?T y) = Some (File c')" using f1 by (metis node.distinct(1) option.inject)
    then show ?thesis using c'(2) by blast
  qed
  have gone: "fs' (?T x) = None"
  proof -
    have "?T x \<notin> ?E ` set xs" "?T x \<notin> ?T ` set xs" using x_notin nq(5) by auto
    moreover have "fs2 (?T x) = None" using fs2 by simp
    moreover have "?T x \<noteq> storageDir env" "?T x \<noteq> encodedDir env" using nq(3,4) by simp_all
    ultimately show ?thesis using IH by metis
  qed
  have frame: "fs' q = fs q \<or> (fs q = None \<and> fs' q = Some Dir
                  \<and> (q = storageDir env \<or> q = encodedDir env))"
    if "q \<notin> ?E ` set (x # xs)" "q \<notin> ?T ` set (x # xs)" for q
  proof -
    from that have q: "q \<noteq> ?E x" "q \<noteq> ?T x" "q \<notin> ?E ` set xs" "q \<notin> ?T ` set xs" by auto
    have a: "fs' q = fs2 q \<or> (fs2 q = None \<and> fs' q = Some Dir
                  \<and> (q = storageDir env \<or> q = encodedDir env))" using IH q(3,4) by blast
    have b: "fs2 q = fs1 q" using fs2 q(2) by simp
    have c: "fs1 q = fs q \<or> (fs q = None \<and> fs1 q = Some Dir
              \<and> (q = storageDir env \<or> q = encodedDir env))" using f1 q(1) by blast
    show ?thesis using a b c by auto
  qed
  have edir: "fs' (encodedDir env) = Some Dir"
  proof -
    have "fs2 (encodedDir env) = Some Dir" using e1 fs2 by (simp add: nq(4)[THEN not_sym])
    moreover have "encodedDir env \<notin> ?E ` set xs" "encodedDir env \<notin> ?T ` set xs"
      using nq(4,9) by (metis (no_types, lifting) imageE)+
    ultimately show ?thesis using IH by (metis option.distinct(1))
  qed
  have "distinct (x # xs)" using x_notin IH by simp
  then show ?case using head tail gone frame edir IH by auto
qed

section \<open>A successful run of \<open>processVideo\<close>\<close>

lemma encoded_key_path:
  assumes "dir_path (dirname env)" "plain_name x"
  shows "path_join (storageDir env) (''encoded/'' @ x) = encodedDir env @ CHR ''/'' # x"
  using path_join_two[OF layout_dir_path(2)[OF assms(1)] plain_name_literals(4) assms(2)]
  by (simp add: encodedDir_def)

lemma blob_encoded:
  assumes "dir_path (dirname env)" "plain_name x"
  shows "blob env fs (''encoded/'' @ x) =
           (case fs (encodedDir env @ CHR ''/'' # x) of Some (File c) \<Rightarrow> Some c | _ \<Rightarrow> None)"
  unfolding blob_def encoded_key_path[OF assms]
  using plain_nameD[OF assms(2)] by (simp add: readFile_def)

lemma processVideo_InrD:
  assumes "dir_path (dirname env)" "fs (dirname env) = Some Dir"
    and "\<forall>f\<in>set (outputFormats env). valid_format f" "outputFormats env \<noteq> []"
    and "processVideo env early fs k = Inr fs'"
  shows "\<exists>c. blob env fs k = Some c \<and> plain_name (path_basename k)
           \<and> localVideoPath env k = tempEncodedDir env @ CHR ''/'' # path_basename k
           \<and> fs (tempEncodedDir env) \<noteq> Some (File c)
           \<and> (\<forall>f\<in>set (outputFormats env). \<exists>b.
                 ffmpeg env (localVideoPath env k) c
                   (encodeVideo_outputPath env (localVideoPath env k) f) = Some b
                 \<and> encodeVideo_outputPath env (localVideoPath env k) f
                     = tempEncodedDir env @ CHR ''/'' # (stem k @ CHR ''.'' # f)
                 \<and> fs' (encodedDir env @ CHR ''/'' # (stem k @ CHR ''.'' # f)) = Some (File b)
                 \<and> fs' (tempEncodedDir env @ CHR ''/'' # (stem k @ CHR ''.'' # f)) = None)
           \<and> fs' (localVideoPath env k) = None
           \<and> fs' (tempEncodedDir env) = Some Dir
           \<and> fs' (encodedDir env) = Some Dir
           \<and> distinct (outputFormats env)
           \<and> (\<forall>f\<in>set (outputFormats env). path_basename k \<noteq> stem k @ CHR ''.'' # f)
           \<and> (\<forall>q. q \<noteq> localVideoPath env k \<longrightarrow>
                 q \<notin> (\<lambda>f. tempEncodedDir env @ CHR ''/'' # (stem k @ CHR ''.'' # f))
                       ` set (outputFormats env) \<longrightarrow>
                 q \<notin> (\<lambda>f. encodedDir env @ CHR ''/'' # (stem k @ CHR ''.'' # f))
                       ` set (outputFormats env) \<longrightarrow>
                 fs' q = fs q \<or> (fs q = None \<and> fs' q = Some Dir
                   \<and> (q = tempEncodedDir env \<or> q = storageDir env \<or> q = encodedDir env)))"
proof -
  let ?T = "tempEncodedDir env" and ?L = "localVideoPath env k" and ?F = "outputFormats env"
  let ?O = "encodeVideo_outputPath env ?L"
  let ?fs1 = "if fs ?T = None then fs(?T \<mapsto> Dir) else fs"
  note nq = layout_child_neq[OF assms(1)]
  note nqs = nq[THEN not_sym]
  note t = layout_dir_path(1)[OF assms(1)]
  from assms(5) obtain fs2 vs fs4 fs5 where
    fetch: "processVideo_fetch env fs k = Inr fs2"
    and enc: "processVideo_encode env early fs2 ?L = Inr (vs, fs4)"
    and up: "upload_loop env fs4 vs = Inr fs5"
    and un: "unlinkSync fs5 ?L = Inr fs'"
    by (auto simp add: processVideo_def split: sum.splits prod.splits)
  from fetch_InrD[OF assms(1,2) fetch] obtain c where
    c: "blob env fs k = Some c" and fs2: "fs2 = ?fs1(?L \<mapsto> File c)"
    and shape: "(plain_name (path_basename k) \<and> ?L = ?T @ CHR ''/'' # path_basename k
                  \<and> fs2 ?T = Some Dir) \<or> ?L = ?T"
    by blast
  have ex: "fs2 ?T \<noteq> None" using shape fs2 by auto
  note E = encode_InrD[of fs2 env early ?L vs fs4, OF ex enc]
  have bl: "path_basename ?L \<noteq> []"
  proof -
    have "path_basename ?T = ''temp_encoded''"
      using path_basename_child[of "''temp_encoded''" "dirname env"] layout(1)[OF assms(1)]
      by simp
    moreover have "plain_name n \<Longrightarrow> path_basename (?T @ CHR ''/'' # n) = n" for n
      using path_basename_child[of n ?T] by (simp add: plain_nameD)
    ultimately show ?thesis using shape by (auto simp add: plain_nameD)
  qed
  have O: "?O f = ?T @ CHR ''/'' # (stem ?L @ CHR ''.'' # f)"
    and pn: "plain_name (stem ?L @ CHR ''.'' # f)" if "f \<in> set ?F" for f
    using outputPath_shape[OF assms(1) bl] assms(3) that by simp_all
  obtain f0 where f0: "f0 \<in> set ?F" using assms(4) by (cases ?F) auto
  have Tdir: "fs2 ?T = Some Dir"
  proof -
    have "fs2 (path_dirname (?O f0)) = Some Dir" using E(2) f0 by blast
    moreover have "path_dirname (?O f0) = ?T"
      using path_dirname_child[OF t] plain_nameD[OF pn[OF f0]] O[OF f0] by simp
    ultimately show ?thesis by simp
  qed
  have notT: "?L \<noteq> ?T" using Tdir fs2 by auto
  then have pl: "plain_name (path_basename k)" and L: "?L = ?T @ CHR ''/'' # path_basename k"
    using shape by auto
  have "path_basename ?L = path_basename k"
    using path_basename_child[of "path_basename k" ?T] plain_nameD[OF pl] L by simp
  then have st: "stem ?L = stem k" by (rule stem_cong)
  let ?n = "\<lambda>f. stem k @ CHR ''.'' # f"
  have vs: "vs = map (\<lambda>x. ?T @ CHR ''/'' # x) (map ?n ?F)"
    using E(1) O st by simp
  have D1: "?fs1 (dirname env) = Some Dir" using assms(2) by simp
  have D2: "fs2 (dirname env) = Some Dir" using D1 fs2 L by (simp add: nqs(1))
  have D4: "fs4 (dirname env) = Some Dir"
  proof -
    have "dirname env \<notin> ?O ` set ?F" using O nq(1) by (metis (no_types, lifting) imageE)
    then show ?thesis using E(3) D2 by simp
  qed
  have pns: "\<forall>x\<in>set (map ?n ?F). plain_name x" using pn st by auto
  note U = upload_loop_InrD[of env fs4 "map ?n ?F" fs5, OF assms(1) D4 pns up[unfolded vs]]
  from unlinkSync_InrD[OF un] have fs': "fs' = fs5(?L := None)" by simp
  have TnotFile: "fs ?T \<noteq> Some (File c)" using Tdir fs2 notT by (auto split: if_splits)
  have perf: "\<exists>b. ffmpeg env ?L c (?O f) = Some b \<and> ?O f = ?T @ CHR ''/'' # ?n f
                \<and> fs' (encodedDir env @ CHR ''/'' # ?n f) = Some (File b)
                \<and> fs' (?T @ CHR ''/'' # ?n f) = None" if f: "f \<in> set ?F" for f
  proof -
    from E(2) f obtain c' b where r: "readFile fs2 ?L = Some c'"
      and b: "ffmpeg env ?L c' (?O f) = Some b" and o: "fs4 (?O f) = Some (File b)" by blast
    have "c' = c" using readFile_SomeD[OF r] fs2 by simp
    have mem: "?n f \<in> set (map ?n ?F)" using f by simp
    from U mem obtain c2 where "fs4 (?T @ CHR ''/'' # ?n f) = Some (File c2)"
      "fs5 (encodedDir env @ CHR ''/'' # ?n f) = Some (File c2)" by blast
    then have "fs5 (encodedDir env @ CHR ''/'' # ?n f) = Some (File b)"
      using o O[OF f] st by simp
    then have 1: "fs' (encodedDir env @ CHR ''/'' # ?n f) = Some (File b)"
      using fs' L nq(5)[of "path_basename k" "?n f"] by simp
    have "fs5 (?T @ CHR ''/'' # ?n f) = None" using U mem by blast
    then have 2: "fs' (?T @ CHR ''/'' # ?n f) = None" using fs' by simp
    show ?thesis using b \<open>c' = c\<close> O[OF f] st 1 2 by simp
  qed
  have frame: "fs' q = fs q \<or> (fs q = None \<and> fs' q = Some Dir
                   \<and> (q = ?T \<or> q = storageDir env \<or> q = encodedDir env))"
    if q: "q \<noteq> ?L" "q \<notin> (\<lambda>f. ?T @ CHR ''/'' # ?n f) ` set ?F"
      "q \<notin> (\<lambda>f. encodedDir env @ CHR ''/'' # ?n f) ` set ?F" for q
  proof -
    have a: "fs' q = fs5 q" using fs' q(1) by simp
    have "q \<notin> (\<lambda>x. encodedDir env @ CHR ''/'' # x) ` set (map ?n ?F)"
      "q \<notin> (\<lambda>x. ?T @ CHR ''/'' # x) ` set (map ?n ?F)" using q(2,3) by auto
    then have b: "fs5 q = fs4 q \<or> (fs4 q = None \<and> fs5 q = Some Dir
                  \<and> (q = storageDir env \<or> q = encodedDir env))" using U by blast
    have "q \<notin> ?O ` set ?F" using q(2) O st by auto
    then have c4: "fs4 q = fs2 q" using E(3) by blast
    have d: "fs2 q = ?fs1 q" using fs2 q(1) by simp
    have e: "?fs1 q = fs q \<or> (fs q = None \<and> ?fs1 q = Some Dir \<and> q = ?T)" by auto
    show ?thesis using a b c4 d e by auto
  qed
  have Lgone: "fs' ?L = None" using fs' by simp
  have Tfin: "fs' ?T = Some Dir"
  proof -
    have "?T \<notin> ?O ` set ?F" using O nqs(2) by (metis (no_types, lifting) imageE)
    then have "fs4 ?T = Some Dir" using E(3) Tdir by simp
    moreover have "?T \<notin> (\<lambda>x. encodedDir env @ CHR ''/'' # x) ` set (map ?n ?F)"
      using nq(7) by (metis (no_types, lifting) imageE)
    moreover have "?T \<notin> (\<lambda>x. ?T @ CHR ''/'' # x) ` set (map ?n ?F)"
      using nq(2) by (metis (no_types, lifting) imageE)
    ultimately have "fs5 ?T = Some Dir" using U by (metis option.distinct(1))
    then show ?thesis using fs' notT by simp
  qed
  have Efin: "fs' (encodedDir env) = Some Dir"
  proof -
    have "fs5 (encodedDir env) = Some Dir" using U assms(4) by simp
    then show ?thesis using fs' L by (simp add: nq(4)[THEN not_sym])
  qed
  have dist: "distinct ?F"
  proof -
    have "distinct (map ?n ?F)" using U by blast
    then show ?thesis by (simp add: distinct_map)
  qed
  have nocoll: "path_basename k \<noteq> ?n f" if f: "f \<in> set ?F" for f
  proof
    assume eq: "path_basename k = ?n f"
    have "?n f \<in> set (map ?n ?F)" using f by simp
    then have "fs5 (?T @ CHR ''/'' # ?n f) = None" using U by blast
    then have "fs5 ?L = None" using L eq by simp
    then show False using unlinkSync_InrD[OF un] by auto
  qed
  show ?thesis
    using c pl L TnotFile perf Lgone Tfin Efin dist nocoll frame by blast
qed

section \<open>The claims\<close>

text \<open>
  C1. When the handler has processed the event with key \<open>K\<close> without error, the bucket
  holds, for every configured format \<open>f\<close>, an object under the key
  \<open>encoded/<basename of K without extension>.f\<close>, and that object is what ffmpeg made of
  the original for that format. Nothing else in the bucket has changed, except that the
  directory \<open>encoded\<close> may have been created; and different formats have different keys.
\<close>

theorem C1_encoded_objects:
  assumes "dir_path (dirname env)" and "files w (dirname env) = Some Dir"
    and "\<forall>f\<in>set (outputFormats env). valid_format f"
    and "K \<noteq> []" and "eachMessage env early w (Some K) = Inr w'"
  shows "(\<forall>f\<in>set (outputFormats env). \<exists>c b. blob env (files w) K = Some c
            \<and> ffmpeg env (localVideoPath env K) c
                 (encodeVideo_outputPath env (localVideoPath env K) f) = Some b
            \<and> blob env (files w') (''encoded/'' @ stem K @ ''.'' @ f) = Some b)
       \<and> (\<forall>p. in_storage env p \<and> files w' p \<noteq> files w p \<longrightarrow>
              p = encodedDir env
              \<or> (\<exists>f\<in>set (outputFormats env).
                    p = path_join (storageDir env) (''encoded/'' @ stem K @ ''.'' @ f)))
       \<and> (\<forall>f\<in>set (outputFormats env). \<forall>g\<in>set (outputFormats env).
              ''encoded/'' @ stem K @ ''.'' @ f = ''encoded/'' @ stem K @ ''.'' @ g \<longrightarrow> f = g)"
proof (cases "outputFormats env = []")
  case True
  from assms(4,5) obtain fs' where run: "processVideo env early (files w) K = Inr fs'"
    and w': "files w' = fs'"
    by (auto simp add: eachMessage_def Let_def split: sum.splits prod.splits)
  from run True obtain fs2 fs5 where
    fetch: "processVideo_fetch env (files w) K = Inr fs2"
    and un: "unlinkSync fs2 (localVideoPath env K) = Inr fs'"
    by (auto simp add: processVideo_def processVideo_encode_def Promise_all_def
        split: sum.splits prod.splits)
  from fetch_InrD[OF assms(1,2) fetch] unlinkSync_InrD[OF un]
  have "\<forall>p. p \<noteq> localVideoPath env K \<longrightarrow> p \<noteq> tempEncodedDir env \<longrightarrow> fs' p = files w p"
    by auto
  moreover have "\<not> in_storage env (localVideoPath env K)"
    using localVideoPath_cases[OF assms(1), of K] layout_in_storage[OF assms(1)] by auto
  ultimately have "\<forall>p. in_storage env p \<longrightarrow> files w' p = files w p"
    using w' layout_in_storage(4)[OF assms(1)] by metis
  then show ?thesis using True by auto
next
  case False
  let ?n = "\<lambda>f. stem K @ CHR ''.'' # f"
  from assms(4,5) obtain fs' where run: "processVideo env early (files w) K = Inr fs'"
    and w': "files w' = fs'"
    by (auto simp add: eachMessage_def Let_def split: sum.splits prod.splits)
  from processVideo_InrD[OF assms(1,2,3) False run] obtain c where
    c: "blob env (files w) K = Some c" and pl: "plain_name (path_basename K)"
    and L: "localVideoPath env K = tempEncodedDir env @ CHR ''/'' # path_basename K"
    and perf: "\<forall>f\<in>set (outputFormats env). \<exists>b.
                 ffmpeg env (localVideoPath env K) c
                   (encodeVideo_outputPath env (localVideoPath env K) f) = Some b
                 \<and> encodeVideo_outputPath env (localVideoPath env K) f
                     = tempEncodedDir env @ CHR ''/'' # ?n f
                 \<and> fs' (encodedDir env @ CHR ''/'' # ?n f) = Some (File b)
                 \<and> fs' (tempEncodedDir env @ CHR ''/'' # ?n f) = None"
    and frame: "\<forall>q. q \<noteq> localVideoPath env K \<longrightarrow>
                 q \<notin> (\<lambda>f. tempEncodedDir env @ CHR ''/'' # ?n f) ` set (outputFormats env) \<longrightarrow>
                 q \<notin> (\<lambda>f. encodedDir env @ CHR ''/'' # ?n f) ` set (outputFormats env) \<longrightarrow>
                 fs' q = files w q \<or> (files w q = None \<and> fs' q = Some Dir
                   \<and> (q = tempEncodedDir env \<or> q = storageDir env \<or> q = encodedDir env))"
    by blast
  have bk: "path_basename K \<noteq> []" using plain_nameD[OF pl] by simp
  have pn: "plain_name (?n f)" if "f \<in> set (outputFormats env)" for f
  proof -
    have "path_basename (localVideoPath env K) = path_basename K"
      using path_basename_child[of "path_basename K" "tempEncodedDir env"] plain_nameD[OF pl] L
      by simp
    then have "stem (localVideoPath env K) = stem K" by (rule stem_cong)
    moreover have "path_basename (localVideoPath env K) \<noteq> []"
      using \<open>path_basename (localVideoPath env K) = path_basename K\<close> bk by simp
    ultimately show ?thesis
      using outputPath_shape(1)[OF assms(1), of "localVideoPath env K" f] assms(3) that by simp
  qed
  have one: "\<forall>f\<in>set (outputFormats env). \<exists>c b. blob env (files w) K = Some c
            \<and> ffmpeg env (localVideoPath env K) c
                 (encodeVideo_outputPath env (localVideoPath env K) f) = Some b
            \<and> blob env (files w') (''encoded/'' @ stem K @ ''.'' @ f) = Some b"
  proof
    fix f assume f: "f \<in> set (outputFormats env)"
    from perf f obtain b where b: "ffmpeg env (localVideoPath env K) c
        (encodeVideo_outputPath env (localVideoPath env K) f) = Some b"
      "fs' (encodedDir env @ CHR ''/'' # ?n f) = Some (File b)" by blast
    have "blob env fs' (''encoded/'' @ ?n f) = Some b"
      using blob_encoded[OF assms(1) pn[OF f], of fs'] b(2) by simp
    then show "\<exists>c b. blob env (files w) K = Some c
            \<and> ffmpeg env (localVideoPath env K) c
                 (encodeVideo_outputPath env (localVideoPath env K) f) = Some b
            \<and> blob env (files w') (''encoded/'' @ stem K @ ''.'' @ f) = Some b"
      using c b(1) w' by simp
  qed
  have two: "\<forall>p. in_storage env p \<and> files w' p \<noteq> files w p \<longrightarrow>
              p = encodedDir env
              \<or> (\<exists>f\<in>set (outputFormats env).
                    p = path_join (storageDir env) (''encoded/'' @ stem K @ ''.'' @ f))"
  proof (intro allI impI)
    fix p assume p: "in_storage env p \<and> files w' p \<noteq> files w p"
    have 1: "p \<noteq> localVideoPath env K" using p L layout_in_storage(3)[OF assms(1)] by auto
    have 2: "p \<notin> (\<lambda>f. tempEncodedDir env @ CHR ''/'' # ?n f) ` set (outputFormats env)"
      using p layout_in_storage(3)[OF assms(1)] by auto
    have 3: "p \<noteq> tempEncodedDir env" "p \<noteq> storageDir env"
      using p layout_in_storage(4,5)[OF assms(1)] by auto
    show "p = encodedDir env \<or> (\<exists>f\<in>set (outputFormats env).
                    p = path_join (storageDir env) (''encoded/'' @ stem K @ ''.'' @ f))"
    proof (cases "p \<in> (\<lambda>f. encodedDir env @ CHR ''/'' # ?n f) ` set (outputFormats env)")
      case True
      then obtain f where f: "f \<in> set (outputFormats env)" "p = encodedDir env @ CHR ''/'' # ?n f"
        by blast
      then have "p = path_join (storageDir env) (''encoded/'' @ stem K @ ''.'' @ f)"
        using encoded_key_path[OF assms(1) pn[OF f(1)]] by simp
      then show ?thesis using f(1) by blast
    next
      case False
      then show ?thesis using frame 1 2 3 p w' by auto
    qed
  qed
  show ?thesis using one two by simp
qed

theorem C1_encoded_objects_witness:
  "dir_path (dirname example_env)
   \<and> files example_world (dirname example_env) = Some Dir
   \<and> list_all valid_format (outputFormats example_env)
   \<and> \<not> isl (eachMessage example_env always example_world (Some ''videos/y.mov''))
   \<and> (\<exists>c b. blob example_env (files example_world) ''videos/y.mov'' = Some c
         \<and> blob example_env
              (files (projr (eachMessage example_env always example_world (Some ''videos/y.mov''))))
              ''encoded/y.webm'' = Some b)"
proof -
  have h1: "dir_path (dirname example_env)" by code_simp
  have h2: "files example_world (dirname example_env) = Some Dir" by code_simp
  have h3: "list_all valid_format (outputFormats example_env)" by code_simp
  have h4: "\<not> isl (eachMessage example_env always example_world (Some ''videos/y.mov''))"
    by code_simp
  have st: "stem ''videos/y.mov'' = ''y''" by code_simp
  have mem: "''webm'' \<in> set (outputFormats example_env)"
    by (simp add: example_env_def source_outputFormats_def)
  have "\<forall>f\<in>set (outputFormats example_env). \<exists>c b.
          blob example_env (files example_world) ''videos/y.mov'' = Some c
          \<and> ffmpeg example_env (localVideoPath example_env ''videos/y.mov'') c
                 (encodeVideo_outputPath example_env
                    (localVideoPath example_env ''videos/y.mov'') f) = Some b
          \<and> blob example_env
              (files (projr (eachMessage example_env always example_world (Some ''videos/y.mov''))))
              (''encoded/'' @ stem ''videos/y.mov'' @ ''.'' @ f) = Some b"
    using C1_encoded_objects[of example_env example_world "''videos/y.mov''" always
        "projr (eachMessage example_env always example_world (Some ''videos/y.mov''))"]
      h1 h2 h3 h4 by (simp add: list_all_iff)
  from this mem have "\<exists>c b. blob example_env (files example_world) ''videos/y.mov'' = Some c
         \<and> blob example_env
              (files (projr (eachMessage example_env always example_world (Some ''videos/y.mov''))))
              (''encoded/'' @ stem ''videos/y.mov'' @ ''.'' @ ''webm'') = Some b"
    by blast
  then show ?thesis using h1 h2 h3 h4 unfolding st by simp
qed

section \<open>Failures of \<open>processVideo\<close>\<close>

lemma fetch_eq:
  assumes "dir_path (dirname env)" "fs (dirname env) = Some Dir"
  shows "processVideo_fetch env fs k =
           (let fs1 = (if fs (tempEncodedDir env) = None then fs(tempEncodedDir env \<mapsto> Dir) else fs)
            in copyFile fs1 (path_join (storageDir env) k) (localVideoPath env k))"
  unfolding processVideo_fetch_def Let_def ensure_tempEncodedDir[of env fs, OF assms]
  by (simp add: downloadFromS3_def Let_def split: sum.splits)

lemma copyFile_unreadable:
  assumes "readFile fs src = None"
  shows "\<exists>e fs'. copyFile fs src dest = Inl (e, fs') \<and> (\<forall>p. p \<noteq> dest \<longrightarrow> fs' p = fs p)"
proof (cases "copyFile fs src dest")
  case (Inl x)
  obtain e fs' where x: "x = (e, fs')" by (cases x)
  from copyFile_InlD[of fs src dest e fs'] Inl x show ?thesis by simp
next
  case (Inr fs')
  from copyFile_InrD[OF this] assms show ?thesis by simp
qed

lemma fetch_missing:
  assumes "dir_path (dirname env)" "fs (dirname env) = Some Dir" "blob env fs k = None"
  shows "\<exists>e fs0 fs1. processVideo_fetch env fs k = Inl (e, fs1)
           \<and> downloadFromS3 env fs0 k (localVideoPath env k) = Inl (e, fs1)
           \<and> (\<forall>p. p \<noteq> tempEncodedDir env \<longrightarrow> fs0 p = fs p)
           \<and> (\<forall>p. p \<noteq> localVideoPath env k \<longrightarrow> fs1 p = fs0 p)"
proof -
  let ?fs0 = "if fs (tempEncodedDir env) = None then fs(tempEncodedDir env \<mapsto> Dir) else fs"
  have "readFile ?fs0 (path_join (storageDir env) k) = None"
    using assms(3) by (auto simp add: blob_def readFile_upd_Dir)
  from copyFile_unreadable[OF this, of "localVideoPath env k"] obtain e fs1 where
    cp: "copyFile ?fs0 (path_join (storageDir env) k) (localVideoPath env k) = Inl (e, fs1)"
    and fr: "\<forall>p. p \<noteq> localVideoPath env k \<longrightarrow> fs1 p = ?fs0 p" by blast
  have 1: "processVideo_fetch env fs k = Inl (e, fs1)"
    unfolding fetch_eq[of env fs, OF assms(1,2)] Let_def by (rule cp)
  have 2: "downloadFromS3 env ?fs0 k (localVideoPath env k) = Inl (e, fs1)"
    using cp by (simp add: downloadFromS3_def Let_def)
  have 3: "\<forall>p. p \<noteq> tempEncodedDir env \<longrightarrow> ?fs0 p = fs p" by simp
  show ?thesis using 1 2 3 fr by blast
qed

lemma encodeVideo_exists:
  "fs (tempEncodedDir env) \<noteq> None \<Longrightarrow>
     encodeVideo env fs inp f = (run_ffmpeg env fs inp (encodeVideo_outputPath env inp f), fs)"
  by (auto simp add: encodeVideo_def existsSync_def Let_def)

lemma localVideoPath_outside:
  assumes "dir_path (dirname env)"
  shows "\<not> in_storage env (localVideoPath env k)"
    and "localVideoPath env k \<noteq> []" and "last (localVideoPath env k) \<noteq> CHR ''/''"
    and "path_basename (localVideoPath env k) \<noteq> []"
proof -
  note c = localVideoPath_cases[OF assms, of k]
  note t = layout_dir_path(1)[OF assms]
  show "\<not> in_storage env (localVideoPath env k)"
    using c layout_in_storage[OF assms] by auto
  show "localVideoPath env k \<noteq> []"
    using c dir_pathD(1)[OF t] dir_pathD(1)[OF assms] by auto
  show "last (localVideoPath env k) \<noteq> CHR ''/''"
    using c dir_pathD(3)[OF t] dir_pathD(3)[OF assms] plain_nameD(1,5)[of "path_basename k"]
    by auto
  have "path_basename (tempEncodedDir env) = ''temp_encoded''"
    using path_basename_child[of "''temp_encoded''" "dirname env"] layout(1)[OF assms] by simp
  moreover have "plain_name n \<Longrightarrow> path_basename (tempEncodedDir env @ CHR ''/'' # n) = n" for n
    using path_basename_child[of n "tempEncodedDir env"] by (simp add: plain_nameD)
  moreover have "localVideoPath env k = dirname env \<Longrightarrow> path_basename (localVideoPath env k) \<noteq> []"
  proof -
    assume l: "localVideoPath env k = dirname env"
    obtain t where d: "dirname env = CHR ''/'' # t" "t \<noteq> []" "last t \<noteq> CHR ''/''"
      using dir_pathD(1,2,3)[OF assms] by (cases "dirname env") (auto split: if_splits)
    have "hd (rev t) \<noteq> CHR ''/''" using d(2,3) by (simp add: hd_rev)
    then have "dropWhile (\<lambda>c. c = CHR ''/'') (rev t @ ''/'') = rev t @ ''/''"
      using d(2) by (cases "rev t") auto
    moreover have "takeWhile (\<lambda>c. c \<noteq> CHR ''/'') (rev t @ ''/'') \<noteq> []"
      using d(2) \<open>hd (rev t) \<noteq> CHR ''/''\<close> by (cases "rev t") auto
    ultimately show ?thesis using l d(1) by (simp add: path_basename_def)
  qed
  ultimately show "path_basename (localVideoPath env k) \<noteq> []"
    using c by (auto simp add: plain_nameD)
qed

lemma outputPath_outside:
  assumes "dir_path (dirname env)" "valid_format f"
  shows "\<not> in_storage env (encodeVideo_outputPath env (localVideoPath env k) f)"
  using outputPath_shape(2)[OF assms(1) localVideoPath_outside(4)[OF assms(1)] assms(2), of k]
    layout_in_storage(3)[OF assms(1)] by simp

lemma processVideo_join_fails:
  assumes "dir_path (dirname env)" "fs (dirname env) = Some Dir"
    and "\<forall>f\<in>set (outputFormats env). valid_format f"
    and "processVideo_fetch env fs k = Inr fs2"
    and "f \<in> set (outputFormats env)"
    and "run_ffmpeg env fs2 (localVideoPath env k)
           (encodeVideo_outputPath env (localVideoPath env k) f) = Inl e"
  shows "\<exists>e' fs3. processVideo env early fs k = Inl (e', fs3)
           \<and> (\<forall>q. in_storage env q \<longrightarrow> fs3 q = fs q)
           \<and> (\<forall>g\<in>set (outputFormats env). \<forall>p b. early g
                 \<and> run_ffmpeg env fs2 (localVideoPath env k)
                      (encodeVideo_outputPath env (localVideoPath env k) g) = Inr (p, b)
                 \<longrightarrow> fs3 p = Some (File b))"
proof -
  let ?T = "tempEncodedDir env" and ?L = "localVideoPath env k"
  let ?O = "encodeVideo_outputPath env ?L"
  let ?fs1 = "if fs ?T = None then fs(?T \<mapsto> Dir) else fs"
  from fetch_InrD[OF assms(1,2,4)] obtain c where
    fs2: "fs2 = ?fs1(?L \<mapsto> File c)"
    and shape: "(plain_name (path_basename k) \<and> ?L = ?T @ CHR ''/'' # path_basename k
                  \<and> fs2 ?T = Some Dir) \<or> ?L = ?T" by blast
  have ex: "fs2 ?T \<noteq> None" using shape fs2 by auto
  from encode_rejects[of fs2 env f ?L e early, OF ex assms(5,6)] obtain e' fs3 where
    enc: "processVideo_encode env early fs2 ?L = Inl (e', fs3)" by blast
  note I = encode_InlD[of fs2 env early ?L e' fs3, OF ex enc]
  have pv: "processVideo env early fs k = Inl (e', fs3)"
    using assms(4) enc by (simp add: processVideo_def)
  have st: "fs3 q = fs q" if q: "in_storage env q" for q
  proof -
    have "q \<notin> ?O ` set (outputFormats env)"
      using q outputPath_outside[OF assms(1)] assms(3) by auto
    then have "fs3 q = fs2 q" using I(1) by blast
    moreover have "q \<noteq> ?L" using q localVideoPath_outside(1)[OF assms(1)] by auto
    moreover have "q \<noteq> ?T" using q layout_in_storage(4)[OF assms(1)] by auto
    ultimately show ?thesis using fs2 by simp
  qed
  show ?thesis using pv st I(2) by blast
qed

text \<open>
  The error of the download on the concrete installation: nothing under the key, a key
  that runs through a regular file, a key that names a directory.
\<close>

lemma fetch_error_codes:
  "(case eachMessage example_env always example_world (Some ''videos/none.mp4'') of
      Inl (e, w) \<Rightarrow> e = ENOENT | Inr w \<Rightarrow> False)"
  "(case eachMessage example_env always example_world (Some ''videos/x.mp4/foo'') of
      Inl (e, w) \<Rightarrow> e = ENOTDIR | Inr w \<Rightarrow> False)"
  "(case eachMessage example_env always example_world (Some ''videos/x.mp4/'') of
      Inl (e, w) \<Rightarrow> e = ENOTDIR | Inr w \<Rightarrow> False)"
  "(case eachMessage example_env always example_world (Some ''videos/'') of
      Inl (e, w) \<Rightarrow> e = EISDIR \<and> files w ''/app/temp_encoded/videos'' = None
    | Inr w \<Rightarrow> False)"
  "(case eachMessage example_env always example_world (Some ''videos'') of
      Inl (e, w) \<Rightarrow> e = EISDIR | Inr w \<Rightarrow> False)"
  by code_simp+

text \<open>
  C9. When the key of an event names no object of the bucket, the download of line 107
  is rejected with the error of the file copy, and the handler is rejected with that
  error. The disk on which the download ran was the initial one, except that the scratch
  directory may have been created; after the rejection nothing else has changed, except
  that the copy may have removed its own destination, the local path of the original in
  the scratch directory. No path of the bucket has changed: nothing was written to it.
  The outcome does not depend on ffmpeg, which is never started.
\<close>

theorem C9_missing_object:
  assumes "dir_path (dirname env)" and "files w (dirname env) = Some Dir" and "K \<noteq> []"
    and "blob env (files w) K = None"
  shows "\<exists>e fs0 fs1. eachMessage env early w (Some K) = Inl (e, w\<lparr>files := fs1\<rparr>)
           \<and> processVideo_fetch env (files w) K = Inl (e, fs1)
           \<and> downloadFromS3 env fs0 K (localVideoPath env K) = Inl (e, fs1)
           \<and> (\<forall>p. p \<noteq> tempEncodedDir env \<longrightarrow> fs0 p = files w p)
           \<and> (\<forall>p. p \<noteq> tempEncodedDir env \<longrightarrow> p \<noteq> localVideoPath env K \<longrightarrow>
                  fs1 p = files w p)
           \<and> (\<forall>p. in_storage env p \<longrightarrow> fs1 p = files w p)
           \<and> (\<forall>g early'. eachMessage (env\<lparr>ffmpeg := g\<rparr>) early' w (Some K)
                  = eachMessage env early w (Some K))"
proof -
  let ?T = "tempEncodedDir env" and ?L = "localVideoPath env K"
  from fetch_missing[OF assms(1,2,4)] obtain e fs0 fs1 where
    fetch: "processVideo_fetch env (files w) K = Inl (e, fs1)"
    and dl: "downloadFromS3 env fs0 K ?L = Inl (e, fs1)"
    and f0: "\<forall>p. p \<noteq> ?T \<longrightarrow> fs0 p = files w p"
    and f1: "\<forall>p. p \<noteq> ?L \<longrightarrow> fs1 p = fs0 p" by blast
  have gen: "eachMessage env' early' w (Some K) = Inl (e, w\<lparr>files := fs1\<rparr>)"
    if "dirname env' = dirname env" for env' early'
  proof -
    have same: "downloadFromS3 env' = downloadFromS3 env"
      "localVideoPath env' = localVideoPath env" "tempEncodedDir env' = tempEncodedDir env"
      using that
      by (simp_all add: fun_eq_iff downloadFromS3_def storageDir_def localVideoPath_def
          tempEncodedDir_def)
    have "processVideo_fetch env' (files w) K = processVideo_fetch env (files w) K"
      unfolding processVideo_fetch_def same ..
    then show ?thesis using fetch assms(3)
      by (simp add: eachMessage_def processVideo_def Let_def)
  qed
  have frame: "\<forall>p. p \<noteq> ?T \<longrightarrow> p \<noteq> ?L \<longrightarrow> fs1 p = files w p" using f0 f1 by simp
  have frame2: "\<forall>p. in_storage env p \<longrightarrow> fs1 p = files w p"
  proof (intro allI impI)
    fix p assume p: "in_storage env p"
    then have "p \<noteq> ?T" "p \<noteq> ?L"
      using layout_in_storage(4)[OF assms(1)] localVideoPath_outside(1)[OF assms(1), of K]
      by auto
    then show "fs1 p = files w p" using frame by simp
  qed
  have indep: "\<forall>g early'. eachMessage (env\<lparr>ffmpeg := g\<rparr>) early' w (Some K)
                  = eachMessage env early w (Some K)"
    using gen[of "env\<lparr>ffmpeg := _\<rparr>"] gen[of env early] by simp
  show ?thesis using gen[of env early] fetch dl f0 frame frame2 indep by blast
qed

theorem C9_missing_object_witness:
  "dir_path (dirname example_env)
   \<and> files example_world (dirname example_env) = Some Dir
   \<and> ''videos/none.mp4'' \<noteq> []
   \<and> blob example_env (files example_world) ''videos/none.mp4'' = None
   \<and> (\<exists>e fs1. eachMessage example_env always example_world (Some ''videos/none.mp4'')
                  = Inl (e, example_world\<lparr>files := fs1\<rparr>)
         \<and> processVideo_fetch example_env (files example_world) ''videos/none.mp4''
                  = Inl (e, fs1)
         \<and> fs1 ''/app/storage/encoded/none.mp4'' = files example_world ''/app/storage/encoded/none.mp4'')"
proof -
  have h1: "dir_path (dirname example_env)" by code_simp
  have h2: "files example_world (dirname example_env) = Some Dir" by code_simp
  have h3: "''videos/none.mp4'' \<noteq> []" by simp
  have h4: "blob example_env (files example_world) ''videos/none.mp4'' = None" by code_simp
  have h5: "in_storage example_env ''/app/storage/encoded/none.mp4''" by code_simp
  from C9_missing_object[OF h1 h2 h3 h4, of always] h5
  have "\<exists>e fs1. eachMessage example_env always example_world (Some ''videos/none.mp4'')
                  = Inl (e, example_world\<lparr>files := fs1\<rparr>)
         \<and> processVideo_fetch example_env (files example_world) ''videos/none.mp4''
                  = Inl (e, fs1)
         \<and> fs1 ''/app/storage/encoded/none.mp4'' = files example_world ''/app/storage/encoded/none.mp4''"
    by blast
  then show ?thesis using h1 h2 h4 by simp
qed

text \<open>
  C2. When the object of the key exists and ffmpeg fails for one of the configured
  formats, the handler is rejected, whatever the other conversions do and whenever they
  end, and at that moment no path of the bucket has changed: nothing was uploaded.
\<close>

theorem C2_join_failure:
  assumes "dir_path (dirname env)" and "files w (dirname env) = Some Dir"
    and "\<forall>f\<in>set (outputFormats env). valid_format f" and "K \<noteq> []"
    and "blob env (files w) K = Some c" and "f \<in> set (outputFormats env)"
    and "ffmpeg env (localVideoPath env K) c
           (encodeVideo_outputPath env (localVideoPath env K) f) = None"
  shows "\<exists>e fs'. eachMessage env early w (Some K) = Inl (e, w\<lparr>files := fs'\<rparr>)
           \<and> (\<forall>p. in_storage env p \<longrightarrow> fs' p = files w p)"
proof -
  let ?T = "tempEncodedDir env" and ?L = "localVideoPath env K"
  let ?fs1 = "if files w ?T = None then (files w)(?T \<mapsto> Dir) else files w"
  have hd: "eachMessage env early w (Some K) =
              (case processVideo env early (files w) K of
                 Inl (e, fs1) \<Rightarrow> Inl (e, w\<lparr>files := fs1\<rparr>) | Inr fs1 \<Rightarrow> Inr (w\<lparr>files := fs1\<rparr>))"
    using assms(4) by (simp add: eachMessage_def)
  have "\<exists>e fs'. processVideo env early (files w) K = Inl (e, fs')
           \<and> (\<forall>p. in_storage env p \<longrightarrow> fs' p = files w p)"
  proof (cases "processVideo_fetch env (files w) K")
    case (Inl x)
    then have cp: "copyFile ?fs1 (path_join (storageDir env) K) ?L = Inl (fst x, snd x)"
      unfolding fetch_eq[of env "files w", OF assms(1,2)] Let_def by simp
    have "snd x p = files w p" if p: "in_storage env p" for p
    proof -
      have "p \<noteq> ?T" "p \<noteq> ?L"
        using p layout_in_storage(4)[OF assms(1)] localVideoPath_outside(1)[OF assms(1), of K]
        by auto
      then show ?thesis using copyFile_InlD[OF cp] by simp
    qed
    moreover have "processVideo env early (files w) K = Inl (fst x, snd x)"
      using Inl by (simp add: processVideo_def)
    ultimately show ?thesis by blast
  next
    case (Inr fs2)
    from fetch_InrD[OF assms(1,2) Inr] assms(5) have fs2: "fs2 = ?fs1(?L \<mapsto> File c)" by auto
    have "readFile fs2 ?L = Some c"
      using fs2 localVideoPath_outside(2,3)[OF assms(1), of K] by (simp add: readFile_def)
    then have "run_ffmpeg env fs2 ?L (encodeVideo_outputPath env ?L f) = Inl FfmpegError"
      using assms(7) by (simp add: run_ffmpeg_def)
    from processVideo_join_fails[OF assms(1,2,3) Inr assms(6) this, of early]
    show ?thesis by blast
  qed
  then show ?thesis unfolding hd by auto
qed

theorem C2_join_failure_witness:
  "dir_path (dirname avi_fails_env)
   \<and> files example_world (dirname avi_fails_env) = Some Dir
   \<and> list_all valid_format (outputFormats avi_fails_env)
   \<and> ''videos/y.mov'' \<noteq> []
   \<and> blob avi_fails_env (files example_world) ''videos/y.mov'' = Some ''original y''
   \<and> ''avi'' \<in> set (outputFormats avi_fails_env)
   \<and> ffmpeg avi_fails_env (localVideoPath avi_fails_env ''videos/y.mov'') ''original y''
        (encodeVideo_outputPath avi_fails_env
           (localVideoPath avi_fails_env ''videos/y.mov'') ''avi'') = None
   \<and> (\<exists>e fs'. eachMessage avi_fails_env mp4_early example_world (Some ''videos/y.mov'')
                  = Inl (e, example_world\<lparr>files := fs'\<rparr>)
         \<and> fs' ''/app/storage/encoded/y.mp4'' = files example_world ''/app/storage/encoded/y.mp4'')"
proof -
  have h1: "dir_path (dirname avi_fails_env)" by code_simp
  have h2: "files example_world (dirname avi_fails_env) = Some Dir" by code_simp
  have h3: "list_all valid_format (outputFormats avi_fails_env)" by code_simp
  have h4: "''videos/y.mov'' \<noteq> []" by simp
  have h5: "blob avi_fails_env (files example_world) ''videos/y.mov'' = Some ''original y''"
    by code_simp
  have h6: "''avi'' \<in> set (outputFormats avi_fails_env)" by code_simp
  have h7: "ffmpeg avi_fails_env (localVideoPath avi_fails_env ''videos/y.mov'') ''original y''
        (encodeVideo_outputPath avi_fails_env
           (localVideoPath avi_fails_env ''videos/y.mov'') ''avi'') = None" by code_simp
  have h8: "in_storage avi_fails_env ''/app/storage/encoded/y.mp4''" by code_simp
  have h3': "\<forall>f\<in>set (outputFormats avi_fails_env). valid_format f"
    using h3 by (simp add: list_all_iff)
  from C2_join_failure[OF h1 h2 h3' h4 h5 h6 h7, of mp4_early] h8
  have "\<exists>e fs'. eachMessage avi_fails_env mp4_early example_world (Some ''videos/y.mov'')
                  = Inl (e, example_world\<lparr>files := fs'\<rparr>)
         \<and> fs' ''/app/storage/encoded/y.mp4'' = files example_world ''/app/storage/encoded/y.mp4''"
    by blast
  then show ?thesis using h1 h2 h3 h5 h6 h7 by simp
qed

text \<open>
  C7. Suppose the original has been fetched, the conversion to format \<open>f\<close> is rejected,
  and the conversion to format \<open>g\<close> has produced its file \<open>p\<close> before the join was
  rejected. Then the handler is rejected, and at that moment \<open>p\<close> is still on the local
  disk with the bytes ffmpeg wrote; \<open>p\<close> is not a path of the bucket, and no path of the
  bucket has changed.
\<close>

theorem C7_orphaned_outputs:
  assumes "dir_path (dirname env)" and "files w (dirname env) = Some Dir"
    and "\<forall>f\<in>set (outputFormats env). valid_format f" and "K \<noteq> []"
    and "processVideo_fetch env (files w) K = Inr fs2"
    and "f \<in> set (outputFormats env)"
    and "fst (encodeVideo env fs2 (localVideoPath env K) f) = Inl e"
    and "g \<in> set (outputFormats env)"
    and "fst (encodeVideo env fs2 (localVideoPath env K) g) = Inr (p, b)"
    and "early g"
  shows "\<exists>e' fs'. eachMessage env early w (Some K) = Inl (e', w\<lparr>files := fs'\<rparr>)
           \<and> fs' p = Some (File b) \<and> \<not> in_storage env p
           \<and> (\<forall>q. in_storage env q \<longrightarrow> fs' q = files w q)"
proof -
  let ?T = "tempEncodedDir env" and ?L = "localVideoPath env K"
  let ?O = "encodeVideo_outputPath env ?L"
  have hd: "eachMessage env early w (Some K) =
              (case processVideo env early (files w) K of
                 Inl (e, fs1) \<Rightarrow> Inl (e, w\<lparr>files := fs1\<rparr>) | Inr fs1 \<Rightarrow> Inr (w\<lparr>files := fs1\<rparr>))"
    using assms(4) by (simp add: eachMessage_def)
  from fetch_InrD[OF assms(1,2,5)] have ex: "fs2 ?T \<noteq> None" by auto
  have rf: "run_ffmpeg env fs2 ?L (?O f) = Inl e"
    and rg: "run_ffmpeg env fs2 ?L (?O g) = Inr (p, b)"
    using assms(7,9) encodeVideo_exists[of fs2 env, OF ex] by simp_all
  from processVideo_join_fails[OF assms(1,2,3,5,6) rf, of early] obtain e' fs3 where
    pv: "processVideo env early (files w) K = Inl (e', fs3)"
    and st: "\<forall>q. in_storage env q \<longrightarrow> fs3 q = files w q"
    and kept: "\<forall>g\<in>set (outputFormats env). \<forall>p b. early g
                 \<and> run_ffmpeg env fs2 ?L (?O g) = Inr (p, b) \<longrightarrow> fs3 p = Some (File b)"
    by blast
  have 1: "fs3 p = Some (File b)" using kept assms(8,10) rg by blast
  have "p = ?O g" using run_ffmpeg_InrD[OF rg] by simp
  then have 2: "\<not> in_storage env p"
    using outputPath_outside[OF assms(1)] assms(3,8) by auto
  show ?thesis unfolding hd using pv st 1 2 by auto
qed

theorem C7_orphaned_outputs_witness:
  "dir_path (dirname avi_fails_env)
   \<and> files example_world (dirname avi_fails_env) = Some Dir
   \<and> list_all valid_format (outputFormats avi_fails_env)
   \<and> ''videos/y.mov'' \<noteq> []
   \<and> \<not> isl (processVideo_fetch avi_fails_env (files example_world) ''videos/y.mov'')
   \<and> ''avi'' \<in> set (outputFormats avi_fails_env)
   \<and> fst (encodeVideo avi_fails_env
             (projr (processVideo_fetch avi_fails_env (files example_world) ''videos/y.mov''))
             (localVideoPath avi_fails_env ''videos/y.mov'') ''avi'') = Inl FfmpegError
   \<and> ''mp4'' \<in> set (outputFormats avi_fails_env)
   \<and> fst (encodeVideo avi_fails_env
             (projr (processVideo_fetch avi_fails_env (files example_world) ''videos/y.mov''))
             (localVideoPath avi_fails_env ''videos/y.mov'') ''mp4'')
        = Inr (''/app/temp_encoded/y.mp4'', ''original y as /app/temp_encoded/y.mp4'')
   \<and> mp4_early ''mp4''
   \<and> (\<exists>e' fs'. eachMessage avi_fails_env mp4_early example_world (Some ''videos/y.mov'')
                   = Inl (e', example_world\<lparr>files := fs'\<rparr>)
         \<and> fs' ''/app/temp_encoded/y.mp4'' = Some (File ''original y as /app/temp_encoded/y.mp4'')
         \<and> fs' ''/app/storage/encoded/y.mp4'' = files example_world ''/app/storage/encoded/y.mp4'')"
proof -
  let ?fs2 = "projr (processVideo_fetch avi_fails_env (files example_world) ''videos/y.mov'')"
  have h1: "dir_path (dirname avi_fails_env)" by code_simp
  have h2: "files example_world (dirname avi_fails_env) = Some Dir" by code_simp
  have h3: "list_all valid_format (outputFormats avi_fails_env)" by code_simp
  have h4: "''videos/y.mov'' \<noteq> []" by simp
  have h5: "\<not> isl (processVideo_fetch avi_fails_env (files example_world) ''videos/y.mov'')"
    by code_simp
  have h6: "''avi'' \<in> set (outputFormats avi_fails_env)" by code_simp
  have h7: "fst (encodeVideo avi_fails_env ?fs2
             (localVideoPath avi_fails_env ''videos/y.mov'') ''avi'') = Inl FfmpegError"
    by code_simp
  have h8: "''mp4'' \<in> set (outputFormats avi_fails_env)" by code_simp
  have h9: "fst (encodeVideo avi_fails_env ?fs2
             (localVideoPath avi_fails_env ''videos/y.mov'') ''mp4'')
        = Inr (''/app/temp_encoded/y.mp4'', ''original y as /app/temp_encoded/y.mp4'')"
    by code_simp
  have h10: "mp4_early ''mp4''" by code_simp
  have h11: "in_storage avi_fails_env ''/app/storage/encoded/y.mp4''" by code_simp
  have h3': "\<forall>f\<in>set (outputFormats avi_fails_env). valid_format f"
    using h3 by (simp add: list_all_iff)
  have h5': "processVideo_fetch avi_fails_env (files example_world) ''videos/y.mov'' = Inr ?fs2"
    using h5 by simp
  from C7_orphaned_outputs[where early = mp4_early and g = "''mp4''" and w = example_world,
      OF h1 h2 h3' h4 h5' h6 h7 h8 h9 h10] h11
  have "\<exists>e' fs'. eachMessage avi_fails_env mp4_early example_world (Some ''videos/y.mov'')
                   = Inl (e', example_world\<lparr>files := fs'\<rparr>)
         \<and> fs' ''/app/temp_encoded/y.mp4'' = Some (File ''original y as /app/temp_encoded/y.mp4'')
         \<and> fs' ''/app/storage/encoded/y.mp4'' = files example_world ''/app/storage/encoded/y.mp4''"
    by blast
  then show ?thesis using h1 h2 h3 h5 h6 h7 h8 h9 h10 by simp
qed

text \<open>
  C10. A message without a value, or with an empty value, is answered with one warning
  on the console: the handler returns normally, and the disk and the topic are as they
  were, whatever the tools would have done. Any other value is the key that
  \<open>processVideo\<close> is called with, and the handler ends as \<open>processVideo\<close> ends.
\<close>

theorem C10_invalid_message:
  "(\<forall>msg. msg = None \<or> msg = Some [] \<longrightarrow>
      (\<exists>w'. eachMessage env early w msg = Inr w' \<and> files w' = files w \<and> topic w' = topic w
         \<and> console w' = console w @ [''Received invalid message'']))
   \<and> (\<forall>k. k \<noteq> [] \<longrightarrow>
         eachMessage env early w (Some k) =
           (case processVideo env early (files w) k of
              Inl (e, fs1) \<Rightarrow> Inl (e, w\<lparr>files := fs1\<rparr>)
            | Inr fs1 \<Rightarrow> Inr (w\<lparr>files := fs1\<rparr>)))"
  by (auto simp add: eachMessage_def)

theorem C10_invalid_message_witness:
  "(\<exists>w'. eachMessage example_env always example_world (Some []) = Inr w'
       \<and> files w' = files example_world \<and> topic w' = topic example_world
       \<and> console w' = console example_world @ [''Received invalid message''])
   \<and> ''videos/y.mov'' \<noteq> []
   \<and> eachMessage example_env always example_world (Some ''videos/y.mov'') =
        (case processVideo example_env always (files example_world) ''videos/y.mov'' of
           Inl (e, fs1) \<Rightarrow> Inl (e, example_world\<lparr>files := fs1\<rparr>)
         | Inr fs1 \<Rightarrow> Inr (example_world\<lparr>files := fs1\<rparr>))"
  using C10_invalid_message[of example_env always example_world] by simp

section \<open>The scratch directory is shared by the original and the outputs\<close>

text \<open>
  \<open>processVideo\<close> stores the original in \<open>temp_encoded\<close> under the basename of its key,
  and \<open>encodeVideo\<close> writes each output to \<open>temp_encoded\<close> under that name with the
  extension replaced. Distinct formats give distinct output paths; but when the
  extension of the key is one of the formats, the output for that format is the
  original's own path, and then the handler cannot complete: the loop of lines 110 to
  113 deletes that file, and line 114 deletes it again.
\<close>

lemma outputPath_inj:
  assumes "dir_path (dirname env)" "valid_format f" "valid_format g"
    and "encodeVideo_outputPath env (localVideoPath env k) f
           = encodeVideo_outputPath env (localVideoPath env k) g"
  shows "f = g"
  using assms(4)
    outputPath_shape(2)[OF assms(1) localVideoPath_outside(4)[OF assms(1)] assms(2), of k]
    outputPath_shape(2)[OF assms(1) localVideoPath_outside(4)[OF assms(1)] assms(3), of k]
  by simp

lemma stem_extname: "path_extname p \<noteq> [] \<Longrightarrow> stem p @ path_extname p = path_basename p"
proof -
  assume a: "path_extname p \<noteq> []"
  then obtain pre where pre: "path_basename p = pre @ path_extname p"
    using path_extname_suffix by blast
  then have "stem p = pre" using a by (simp add: stem_eq)
  then show ?thesis using pre by simp
qed

lemma colliding_key_never_completes:
  assumes "dir_path (dirname env)" "fs (dirname env) = Some Dir"
    and "\<forall>f\<in>set (outputFormats env). valid_format f"
    and "f \<in> set (outputFormats env)" "path_extname k = CHR ''.'' # f"
  shows "processVideo env early fs k \<noteq> Inr fs'"
proof
  assume run: "processVideo env early fs k = Inr fs'"
  have ne: "outputFormats env \<noteq> []" using assms(4) by auto
  from processVideo_InrD[OF assms(1,2,3) ne run] assms(4)
  have "path_basename k \<noteq> stem k @ CHR ''.'' # f" by blast
  then show False using stem_extname[of k] assms(5) by simp
qed

text \<open>
  C3, at a key the producer publishes: for the format mp4, the output path that
  \<open>encodeVideo\<close> computes is the path of the local original.
\<close>

theorem C3_output_is_the_original:
  "''mp4'' \<in> set (outputFormats example_env)
   \<and> encodeVideo_outputPath example_env
        (localVideoPath example_env ''videos/downloaded_video_c-I5S_zTwAc.mp4'') ''mp4''
      = localVideoPath example_env ''videos/downloaded_video_c-I5S_zTwAc.mp4''"
  by code_simp

text \<open>
  C4, the scenario as stated: formats mp4 and avi, key \<open>videos/x.mp4\<close>, both conversions
  succeed. The bucket gains \<open>encoded/x.mp4\<close> and \<open>encoded/x.avi\<close> and the scratch files are
  gone, but the handler does not complete: it is rejected with ENOENT by the
  \<open>unlinkSync\<close> of line 114.
\<close>

theorem C4_scenario_is_rejected:
  "(case eachMessage two_format_env always example_world (Some ''videos/x.mp4'') of
      Inl (e, w') \<Rightarrow>
        e = ENOENT
        \<and> blob two_format_env (files w') ''encoded/x.mp4'' \<noteq> None
        \<and> blob two_format_env (files w') ''encoded/x.avi'' \<noteq> None
        \<and> files w' ''/app/temp_encoded/x.mp4'' = None
        \<and> files w' ''/app/temp_encoded/x.avi'' = None
    | Inr w' \<Rightarrow> False)"
  by code_simp

section \<open>The producer\<close>

lemma producer_layout:
  assumes "dir_path (dirname env)"
  shows "tempDir env = dirname env @ ''/temp''"
    and "videosDir env = dirname env @ ''/storage/videos''"
    and "dir_path (tempDir env)" and "dir_path (videosDir env)"
proof -
  show t: "tempDir env = dirname env @ ''/temp''"
    using path_join_plain[OF assms plain_name_literals(2)] by (simp add: tempDir_def)
  show "videosDir env = dirname env @ ''/storage/videos''"
    by (simp add: videosDir_def layout(2)[OF assms])
  show "dir_path (tempDir env)"
    using dir_path_child[OF assms plain_name_literals(2)] t by simp
  show "dir_path (videosDir env)"
    using dir_path_child[OF layout_dir_path(2)[OF assms] plain_name_literals(5)]
    by (simp add: videosDir_def)
qed

lemma producer_neq:
  assumes "dir_path (dirname env)"
  shows "tempDir env @ CHR ''/'' # x \<noteq> dirname env"
    "tempDir env @ CHR ''/'' # x \<noteq> tempDir env"
    "tempDir env @ CHR ''/'' # x \<noteq> storageDir env"
    "tempDir env @ CHR ''/'' # x \<noteq> videosDir env"
    "tempDir env @ CHR ''/'' # x \<noteq> videosDir env @ CHR ''/'' # y"
    "videosDir env @ CHR ''/'' # y \<noteq> dirname env"
    "videosDir env @ CHR ''/'' # y \<noteq> tempDir env"
    "videosDir env @ CHR ''/'' # y \<noteq> storageDir env"
    "videosDir env @ CHR ''/'' # y \<noteq> videosDir env"
    "tempDir env \<noteq> dirname env" "tempDir env \<noteq> storageDir env" "tempDir env \<noteq> videosDir env"
    "videosDir env \<noteq> dirname env" "videosDir env \<noteq> storageDir env"
  by (simp_all add: producer_layout(1,2)[OF assms] layout[OF assms])

lemma producer_in_storage:
  assumes "dir_path (dirname env)"
  shows "in_storage env (videosDir env @ CHR ''/'' # y)"
    "\<not> in_storage env (tempDir env @ CHR ''/'' # x)"
    "\<not> in_storage env (tempDir env)"
  by (simp_all add: producer_layout(1,2)[OF assms] layout[OF assms] in_storage_def)

lemma video_names:
  assumes "CHR ''/'' \<notin> set ident"
  shows "plain_name (''downloaded_video_'' @ ident)"
    and "plain_name (''downloaded_video_'' @ ident @ ''.mp4'')"
  using assms by (simp_all add: plain_name_def)

lemma video_paths:
  assumes "dir_path (dirname env)" "CHR ''/'' \<notin> set ident"
  shows "path_join (tempDir env) (''downloaded_video_'' @ ident)
           = tempDir env @ CHR ''/'' # (''downloaded_video_'' @ ident)"
    and "video_localPath env ident
           = tempDir env @ CHR ''/'' # (''downloaded_video_'' @ ident @ ''.mp4'')"
    and "path_join (storageDir env) (video_key ident)
           = videosDir env @ CHR ''/'' # (''downloaded_video_'' @ ident @ ''.mp4'')"
proof -
  show 1: "path_join (tempDir env) (''downloaded_video_'' @ ident)
           = tempDir env @ CHR ''/'' # (''downloaded_video_'' @ ident)"
    by (rule path_join_plain[OF producer_layout(3)[OF assms(1)] video_names(1)[OF assms(2)]])
  show "video_localPath env ident
           = tempDir env @ CHR ''/'' # (''downloaded_video_'' @ ident @ ''.mp4'')"
    unfolding video_localPath_def 1 by simp
  show "path_join (storageDir env) (video_key ident)
           = videosDir env @ CHR ''/'' # (''downloaded_video_'' @ ident @ ''.mp4'')"
    using path_join_two[OF layout_dir_path(2)[OF assms(1)] plain_name_literals(5)
        video_names(2)[OF assms(2)]]
    by (simp add: video_key_def videosDir_def)
qed

lemma ensure_bucket_dir_ok:
  assumes "dir_path (dirname env)" "fs (dirname env) = Some Dir" "plain_name m"
    and "\<not> is_file fs (storageDir env)" "\<not> is_file fs (storageDir env @ CHR ''/'' # m)"
  shows "\<exists>fs1. (if \<not> existsSync fs (storageDir env @ CHR ''/'' # m)
                then mkdirSync_recursive fs (storageDir env @ CHR ''/'' # m) else Inr fs) = Inr fs1
           \<and> fs1 (storageDir env @ CHR ''/'' # m) = Some Dir"
proof -
  let ?S = "storageDir env" and ?X = "storageDir env @ CHR ''/'' # m"
  note s = layout_dir_path(2)[OF assms(1)]
  show ?thesis
  proof (cases "fs ?X")
    case (Some n)
    then have "fs ?X = Some Dir" using assms(5) by (cases n) (simp_all add: is_file_def)
    then show ?thesis by (simp add: existsSync_def)
  next
    case None
    have p: "path_dirname ?X = ?S"
      using path_dirname_child[OF s] plain_nameD[OF assms(3)] by simp
    have S: "mkdirSync_recursive fs ?S =
               (case fs ?S of Some Dir \<Rightarrow> Inr fs | Some (File c) \<Rightarrow> Inl EEXIST
                | None \<Rightarrow> Inr (fs(?S \<mapsto> Dir)))"
      unfolding layout(2)[OF assms(1)]
      by (rule mkdirSync_recursive_child[of "dirname env" "''storage''" fs,
            OF assms(1) plain_name_literals(3) assms(2)])
    have "\<exists>fsS. mkdirSync_recursive fs ?S = Inr fsS"
      unfolding S using assms(4) by (auto simp add: is_file_def split: option.splits node.splits)
    then obtain fsS where fsS: "mkdirSync_recursive fs ?S = Inr fsS" by blast
    have "mkdirSync_recursive fs ?X = Inr (fsS(?X \<mapsto> Dir))"
      using None fsS by (subst mkdirSync_recursive.simps) (simp add: p)
    then show ?thesis using None by (simp add: existsSync_def)
  qed
qed

lemma uploadToS3_InrI:
  assumes "dir_path (dirname env)" "fs (dirname env) = Some Dir"
    and "plain_name m" "plain_name x"
    and "readFile fs v = Some c"
    and "\<not> is_file fs (storageDir env)" "\<not> is_file fs (storageDir env @ CHR ''/'' # m)"
    and "fs ((storageDir env @ CHR ''/'' # m) @ CHR ''/'' # x) \<noteq> Some Dir"
  shows "\<exists>fs'. uploadToS3 env fs v (m @ CHR ''/'' # x) = Inr fs'"
proof -
  let ?S = "storageDir env" and ?X = "storageDir env @ CHR ''/'' # m"
  let ?dest = "?X @ CHR ''/'' # x"
  note s = layout_dir_path(2)[OF assms(1)]
  have dest: "path_join ?S (m @ CHR ''/'' # x) = ?dest"
    by (rule path_join_two[OF s assms(3,4)])
  have dx: "dir_path ?X" by (rule dir_path_child[OF s assms(3)])
  from ensure_bucket_dir_ok[OF assms(1,2,3,6,7)] obtain fs1 where
    fs1: "(if \<not> existsSync fs ?X then mkdirSync_recursive fs ?X else Inr fs) = Inr fs1"
    and X: "fs1 ?X = Some Dir" by blast
  note g = ensure_bucket_dir(2)[of env fs m fs1, OF assms(1,2,3) fs1]
  have r: "readFile fs1 v = Some c" using readFile_grown[OF g] assms(5) by simp
  have "?dest \<noteq> ?S" "?dest \<noteq> ?X" by simp_all
  then have "fs1 ?dest = fs ?dest" using g by blast
  then have nd: "fs1 ?dest \<noteq> Some Dir" using assms(8) by simp
  have "writeFile fs1 ?dest c = Inr (fs1(?dest \<mapsto> File c))"
    using writeFile_child[OF dx, of x fs1 c] plain_nameD[OF assms(4)] nd X by simp
  then have "copyFile fs1 v ?dest = Inr (fs1(?dest \<mapsto> File c))"
    using r by (simp add: copyFile_def)
  then show ?thesis
    unfolding uploadToS3_def Let_def dest path_dirname_child[OF dx plain_nameD(1,2)[OF assms(4)]] fs1
    by simp
qed

lemma producer_iteration_InrD:
  assumes "dir_path (dirname env)" "files w (dirname env) = Some Dir"
    and "CHR ''/'' \<notin> set ident"
    and "producer_iteration env (tempDir env) w ident = Inr w'"
  shows "\<exists>b. ytdlp env (video_url ident) (video_localPath env ident) = Some b
           \<and> kafka env (topic w) (video_key ident) = Delivered
           \<and> files w' (path_join (storageDir env) (video_key ident)) = Some (File b)
           \<and> files w' (video_localPath env ident) = None
           \<and> files w (tempDir env) = Some Dir
           \<and> files w' (videosDir env) = Some Dir
           \<and> topic w' = topic w @ [video_key ident]
           \<and> console w' = console w
           \<and> (\<forall>q. q \<noteq> path_join (storageDir env) (video_key ident) \<longrightarrow>
                    q \<noteq> video_localPath env ident \<longrightarrow>
                    files w' q = files w q \<or> (files w q = None \<and> files w' q = Some Dir
                       \<and> (q = storageDir env \<or> q = videosDir env)))"
proof -
  define n where "n = ''downloaded_video_'' @ ident @ ''.mp4''"
  let ?loc = "tempDir env @ CHR ''/'' # n" and ?dest = "videosDir env @ CHR ''/'' # n"
  note vp = video_paths[OF assms(1,3)]
  have pn: "plain_name n" using video_names(2)[OF assms(3)] by (simp add: n_def)
  have loc: "video_localPath env ident = ?loc"
    and dest: "path_join (storageDir env) (video_key ident) = ?dest"
    using vp(2,3) by (simp_all add: n_def)
  note nq = producer_neq[OF assms(1)]
  note nqs = nq[THEN not_sym]
  from assms(4) obtain fs1 fs2 log1 fs3 where
    dl: "downloadYouTubeVideo env (files w) (video_url ident)
           (tempDir env @ CHR ''/'' # (''downloaded_video_'' @ ident)) = Inr (?loc, fs1)"
    and up: "uploadToS3 env fs1 ?loc (''videos'' @ CHR ''/'' # n) = Inr fs2"
    and pe: "produceEvent env (topic w) (video_key ident) = Inr log1"
    and un: "unlinkSync fs2 ?loc = Inr fs3"
    and w': "w' = w\<lparr>files := fs3, topic := log1\<rparr>"
    unfolding producer_iteration_def Let_def vp(1) n_def
    by (auto simp add: video_url_def video_key_def downloadYouTubeVideo_def
        split: sum.splits prod.splits option.splits)
  from dl obtain b where b: "ytdlp env (video_url ident) ?loc = Some b"
    and wr: "writeFile (files w) ?loc b = Inr fs1"
    unfolding n_def
    by (auto simp add: downloadYouTubeVideo_def split: option.splits sum.splits)
  from writeFile_InrD[OF wr] have fs1: "fs1 = (files w)(?loc \<mapsto> File b)"
    and par: "files w (path_dirname ?loc) = Some Dir" by simp_all
  have P: "files w (tempDir env) = Some Dir"
    using par path_dirname_child[OF producer_layout(3)[OF assms(1)], of n] plain_nameD[OF pn]
    by simp
  have D1: "fs1 (dirname env) = Some Dir" using fs1 assms(2) by (simp add: nq(1)[THEN not_sym])
  from uploadToS3_InrD[OF assms(1) D1 plain_name_literals(5) pn up]
  obtain c where c: "readFile fs1 ?loc = Some c" and d2: "fs2 ?dest = Some (File c)"
    and f2: "\<forall>q. q \<noteq> ?dest \<longrightarrow> fs2 q = fs1 q \<or> (fs1 q = None \<and> fs2 q = Some Dir
              \<and> (q = storageDir env \<or> q = videosDir env))"
    and V2: "fs2 (videosDir env) = Some Dir"
    by (auto simp add: videosDir_def)
  have "c = b" using readFile_SomeD[OF c] fs1 by simp
  from unlinkSync_InrD[OF un] have fs3: "fs3 = fs2(?loc := None)" by simp
  from pe have k: "kafka env (topic w) (video_key ident) = Delivered"
    and log1: "log1 = topic w @ [video_key ident]"
    by (auto simp add: produceEvent_def split: kafka_outcome.splits)
  have fw: "files w' = fs3" "topic w' = log1" "console w' = console w" using w' by simp_all
  have 1: "files w' ?dest = Some (File b)"
    unfolding fw fs3 using d2 \<open>c = b\<close> by (simp add: nq nqs)
  have 2: "files w' ?loc = None" unfolding fw fs3 by simp
  have 3: "files w' (videosDir env) = Some Dir"
    unfolding fw fs3 using V2 by (simp add: nq nqs)
  have 4: "files w' q = files w q \<or> (files w q = None \<and> files w' q = Some Dir
                       \<and> (q = storageDir env \<or> q = videosDir env))"
    if "q \<noteq> ?dest" "q \<noteq> ?loc" for q
    unfolding fw fs3 using that f2 fs1 by auto
  show ?thesis
    unfolding loc dest using b k 1 2 3 4 P fw log1 by auto
qed

lemma producer_download_fails:
  assumes "\<not> downloads env ident"
  shows "producer_iteration env (tempDir env) w ident = Inl (ExecError, w)"
  using assms
  by (simp add: producer_iteration_def Let_def downloadYouTubeVideo_def downloads_def
      video_url_def video_localPath_def)

lemma producer_iteration_InrI:
  assumes "dir_path (dirname env)" "producer_ready env (files w) work"
    and "files w (tempDir env) = Some Dir"
    and "ident \<in> set work" "CHR ''/'' \<notin> set ident"
    and "downloads env ident" "kafka env (topic w) (video_key ident) = Delivered"
  shows "\<exists>w'. producer_iteration env (tempDir env) w ident = Inr w'"
proof -
  define n where "n = ''downloaded_video_'' @ ident @ ''.mp4''"
  let ?loc = "tempDir env @ CHR ''/'' # n" and ?dest = "videosDir env @ CHR ''/'' # n"
  let ?fs = "files w"
  note vp = video_paths[OF assms(1,5)]
  have pn: "plain_name n" using video_names(2)[OF assms(5)] by (simp add: n_def)
  have loc: "video_localPath env ident = ?loc"
    and dest: "path_join (storageDir env) (video_key ident) = ?dest"
    using vp(2,3) by (simp_all add: n_def)
  note nq = producer_neq[OF assms(1)]
  note nqs = nq[THEN not_sym]
  from assms(2) have D: "?fs (dirname env) = Some Dir"
    and nS: "\<not> is_file ?fs (storageDir env)" and nV: "\<not> is_file ?fs (videosDir env)"
    and la: "list_all (\<lambda>ident. ?fs (video_localPath env ident) \<noteq> Some Dir
             \<and> ?fs (path_join (storageDir env) (video_key ident)) \<noteq> Some Dir) work"
    by (simp_all add: producer_ready_def)
  from la assms(4) have nl: "?fs ?loc \<noteq> Some Dir" and nd: "?fs ?dest \<noteq> Some Dir"
    unfolding loc[symmetric] dest[symmetric] by (auto simp add: list_all_iff)
  from assms(6) obtain b where b: "ytdlp env (video_url ident) ?loc = Some b"
    by (auto simp add: downloads_def loc)
  let ?fs1 = "?fs(?loc \<mapsto> File b)"
  have wr: "writeFile ?fs ?loc b = Inr ?fs1"
    using writeFile_child[OF producer_layout(3)[OF assms(1)], of n ?fs b] plain_nameD[OF pn]
      nl assms(3) by simp
  have dl: "downloadYouTubeVideo env ?fs (''https://www.youtube.com/watch?v='' @ ident)
              (tempDir env @ CHR ''/'' # (''downloaded_video_'' @ ident)) = Inr (?loc, ?fs1)"
    using b wr by (simp add: downloadYouTubeVideo_def n_def video_url_def)
  have D1: "?fs1 (dirname env) = Some Dir" using D by (simp add: nqs)
  have r1: "readFile ?fs1 ?loc = Some b" using plain_nameD[OF pn] by (simp add: readFile_def)
  have nS1: "\<not> is_file ?fs1 (storageDir env)" using nS by (simp add: is_file_def nq nqs)
  have V: "storageDir env @ CHR ''/'' # ''videos'' = videosDir env" by (simp add: videosDir_def)
  have "\<not> is_file ?fs1 (videosDir env)" using nV by (simp add: is_file_def nq nqs)
  then have nV1: "\<not> is_file ?fs1 (storageDir env @ CHR ''/'' # ''videos'')"
    unfolding V .
  have "?fs1 (videosDir env @ CHR ''/'' # n) \<noteq> Some Dir" using nd by (simp add: nq nqs)
  then have nd1: "?fs1 ((storageDir env @ CHR ''/'' # ''videos'') @ CHR ''/'' # n) \<noteq> Some Dir"
    unfolding V .
  from uploadToS3_InrI[OF assms(1) D1 plain_name_literals(5) pn r1 nS1 nV1 nd1]
  obtain fs2 where up: "uploadToS3 env ?fs1 ?loc (''videos'' @ CHR ''/'' # n) = Inr fs2" by blast
  have f2: "\<forall>q. q \<noteq> ?dest \<longrightarrow> fs2 q = ?fs1 q \<or> (?fs1 q = None \<and> fs2 q = Some Dir
              \<and> (q = storageDir env \<or> q = videosDir env))"
    using uploadToS3_InrD(2)[OF assms(1) D1 plain_name_literals(5) pn up]
    unfolding V .
  have ne: "?loc \<noteq> ?dest" by (simp add: nq)
  have "fs2 ?loc = ?fs1 ?loc \<or> ?fs1 ?loc = None"
    using f2[rule_format, OF ne] by (elim disjE conjE) simp_all
  then have "fs2 ?loc = Some (File b)" by simp
  then have un: "unlinkSync fs2 ?loc = Inr (fs2(?loc := None))" by (rule unlinkSync_File)
  have up': "uploadToS3 env ?fs1 ?loc (''videos/'' @ (''downloaded_video_'' @ ident) @ ''.mp4'')
               = Inr fs2"
    using up by (simp add: n_def)
  have pe: "produceEvent env (topic w) (''videos/'' @ (''downloaded_video_'' @ ident) @ ''.mp4'')
              = Inr (topic w @ [video_key ident])"
    using assms(7) by (simp add: produceEvent_def video_key_def)
  have "producer_iteration env (tempDir env) w ident
          = Inr (w\<lparr>files := fs2(?loc := None), topic := topic w @ [video_key ident]\<rparr>)"
    by (simp only: producer_iteration_def Let_def vp(1) dl sum.case prod.case up' pe un)
  then show ?thesis by blast
qed

lemma video_path_facts:
  assumes "dir_path (dirname env)" "CHR ''/'' \<notin> set i" "CHR ''/'' \<notin> set j"
  shows "path_join (storageDir env) (video_key i) = path_join (storageDir env) (video_key j)
           \<longleftrightarrow> i = j"
    and "video_localPath env i = video_localPath env j \<longleftrightarrow> i = j"
    and "video_localPath env i \<noteq> path_join (storageDir env) (video_key j)"
    and "path_join (storageDir env) (video_key j) \<noteq> video_localPath env i"
    and "path_join (storageDir env) (video_key i) \<notin>
           {dirname env, tempDir env, storageDir env, videosDir env}"
    and "video_localPath env i \<notin> {dirname env, tempDir env, storageDir env, videosDir env}"
    and "in_storage env (path_join (storageDir env) (video_key i))"
  unfolding video_paths(2,3)[OF assms(1,2)] video_paths(2,3)[OF assms(1,3)]
  using producer_neq[OF assms(1)] producer_neq[OF assms(1), THEN not_sym]
    producer_in_storage(1)[OF assms(1)]
  by simp_all

lemma producer_ready_step:
  assumes "dir_path (dirname env)" "\<forall>i\<in>set work. CHR ''/'' \<notin> set i"
    and "producer_ready env (files w) work" "files w (tempDir env) = Some Dir"
    and "CHR ''/'' \<notin> set ident"
    and "producer_iteration env (tempDir env) w ident = Inr w'"
  shows "producer_ready env (files w') work \<and> files w' (tempDir env) = Some Dir"
proof -
  let ?loc = "video_localPath env" and ?dest = "\<lambda>i. path_join (storageDir env) (video_key i)"
  from assms(3) have D: "files w (dirname env) = Some Dir"
    and nS: "\<not> is_file (files w) (storageDir env)"
    and la: "\<forall>i\<in>set work. files w (?loc i) \<noteq> Some Dir \<and> files w (?dest i) \<noteq> Some Dir"
    by (simp_all add: producer_ready_def list_all_iff)
  from producer_iteration_InrD[OF assms(1) D assms(5,6)] obtain b where
    d: "files w' (?dest ident) = Some (File b)" and l: "files w' (?loc ident) = None"
    and V: "files w' (videosDir env) = Some Dir"
    and fr: "\<forall>q. q \<noteq> ?dest ident \<longrightarrow> q \<noteq> ?loc ident \<longrightarrow>
                files w' q = files w q \<or> (files w q = None \<and> files w' q = Some Dir
                   \<and> (q = storageDir env \<or> q = videosDir env))"
    by auto
  note pf = video_path_facts[OF assms(1)]
  have out: "q \<noteq> ?dest ident \<and> q \<noteq> ?loc ident"
    if "q \<in> {dirname env, tempDir env, storageDir env, videosDir env}" for q
    using that pf(5,6)[OF assms(5) assms(5)] by auto
  have D': "files w' (dirname env) = Some Dir"
    using fr[rule_format, of "dirname env"] out[of "dirname env"] D by auto
  have P': "files w' (tempDir env) = Some Dir"
    using fr[rule_format, of "tempDir env"] out[of "tempDir env"] assms(4) by auto
  have "\<not> is_file (files w') (tempDir env)" using P' by (simp add: is_file_def)
  moreover have "\<not> is_file (files w') (videosDir env)" using V by (simp add: is_file_def)
  moreover have "\<not> is_file (files w') (storageDir env)"
    using fr[rule_format, of "storageDir env"] out[of "storageDir env"] nS
    by (auto simp add: is_file_def)
  moreover have "files w' (?loc i) \<noteq> Some Dir \<and> files w' (?dest i) \<noteq> Some Dir"
    if i: "i \<in> set work" for i
  proof -
    have si: "CHR ''/'' \<notin> set i" using assms(2) i by simp
    have a: "files w' (?loc i) \<noteq> Some Dir"
    proof (cases "i = ident")
      case True
      then show ?thesis using l by simp
    next
      case False
      then have "?loc i \<noteq> ?loc ident" "?loc i \<noteq> ?dest ident"
        using pf(2,3)[OF si assms(5)] by simp_all
      from fr[rule_format, OF this(2,1)] la i pf(6)[OF si si] show ?thesis by auto
    qed
    have b: "files w' (?dest i) \<noteq> Some Dir"
    proof (cases "i = ident")
      case True
      then show ?thesis using d by simp
    next
      case False
      then have "?dest i \<noteq> ?dest ident" "?dest i \<noteq> ?loc ident"
        using pf(1,4)[OF si assms(5)] pf(4)[OF assms(5) si] by simp_all
      from fr[rule_format, OF this] la i pf(5)[OF si si] show ?thesis by auto
    qed
    show ?thesis using a b by simp
  qed
  ultimately show ?thesis using D' P' by (simp add: producer_ready_def list_all_iff)
qed

lemma producer_loop_result:
  assumes "dir_path (dirname env)" "\<forall>i\<in>set all. CHR ''/'' \<notin> set i"
    and "\<forall>i\<in>set all. \<forall>log. kafka env log (video_key i) = Delivered"
    and "set work \<subseteq> set all"
    and "producer_ready env (files w) all" "files w (tempDir env) = Some Dir"
  shows "topic (producer_loop env (tempDir env) w work)
           = topic w @ map video_key (filter (downloads env) work)
       \<and> console (producer_loop env (tempDir env) w work)
           = console w @ map (\<lambda>i. ''Error in producer:'') (filter (\<lambda>i. \<not> downloads env i) work)
       \<and> (\<forall>i\<in>set work. downloads env i \<longrightarrow>
             files (producer_loop env (tempDir env) w work)
               (path_join (storageDir env) (video_key i))
             = Some (File (the (ytdlp env (video_url i) (video_localPath env i)))))
       \<and> (\<forall>q. (\<forall>i\<in>set work. downloads env i \<longrightarrow>
                   q \<noteq> path_join (storageDir env) (video_key i) \<and> q \<noteq> video_localPath env i) \<longrightarrow>
             files (producer_loop env (tempDir env) w work) q = files w q
             \<or> (files w q = None \<and> files (producer_loop env (tempDir env) w work) q = Some Dir
                  \<and> (q = storageDir env \<or> q = videosDir env)))"
  using assms(4,5,6)
proof (induction work arbitrary: w)
  case Nil
  then show ?case by simp
next
  case (Cons ident rest)
  let ?P = "tempDir env"
  let ?loc = "video_localPath env" and ?dest = "\<lambda>i. path_join (storageDir env) (video_key i)"
  let ?media = "\<lambda>i. the (ytdlp env (video_url i) (video_localPath env i))"
  have mem: "ident \<in> set all" and sub: "set rest \<subseteq> set all" using Cons.prems(1) by simp_all
  have sid: "CHR ''/'' \<notin> set ident" using assms(2) mem by simp
  note pf = video_path_facts[OF assms(1)]
  show ?case
  proof (cases "downloads env ident")
    case False
    let ?w1 = "w\<lparr>console := console w @ [''Error in producer:'']\<rparr>"
    have step: "producer_loop env ?P w (ident # rest) = producer_loop env ?P ?w1 rest"
      using producer_download_fails[OF False, of w] by simp
    have r1: "producer_ready env (files ?w1) all" "files ?w1 ?P = Some Dir"
      using Cons.prems(2,3) by simp_all
    note IH = Cons.IH[OF sub r1]
    show ?thesis unfolding step using IH False by simp
  next
    case True
    have k: "kafka env (topic w) (video_key ident) = Delivered" using assms(3) mem by simp
    from producer_iteration_InrI[OF assms(1) Cons.prems(2,3) mem sid True k] obtain w1 where
      it: "producer_iteration env ?P w ident = Inr w1" by auto
    have step: "producer_loop env ?P w (ident # rest) = producer_loop env ?P w1 rest"
      using it by simp
    have D: "files w (dirname env) = Some Dir" using Cons.prems(2) by (simp add: producer_ready_def)
    from producer_iteration_InrD[OF assms(1) D sid it] obtain b where
      b: "ytdlp env (video_url ident) (?loc ident) = Some b"
      and d1: "files w1 (?dest ident) = Some (File b)"
      and t1: "topic w1 = topic w @ [video_key ident]" and c1: "console w1 = console w"
      and fr1: "\<forall>q. q \<noteq> ?dest ident \<longrightarrow> q \<noteq> ?loc ident \<longrightarrow>
                files w1 q = files w q \<or> (files w q = None \<and> files w1 q = Some Dir
                   \<and> (q = storageDir env \<or> q = videosDir env))"
      by auto
    from producer_ready_step[OF assms(1,2) Cons.prems(2,3) sid it]
    have r1: "producer_ready env (files w1) all" "files w1 ?P = Some Dir" by simp_all
    note IH = Cons.IH[OF sub r1]
    let ?w' = "producer_loop env ?P w1 rest"
    have top: "topic ?w' = topic w @ map video_key (filter (downloads env) (ident # rest))"
      using IH t1 True by simp
    have con: "console ?w' = console w
                 @ map (\<lambda>i. ''Error in producer:'') (filter (\<lambda>i. \<not> downloads env i) (ident # rest))"
      using IH c1 True by simp
    have frR: "files ?w' q = files w1 q \<or> (files w1 q = None \<and> files ?w' q = Some Dir
                  \<and> (q = storageDir env \<or> q = videosDir env))"
      if "\<forall>i\<in>set rest. downloads env i \<longrightarrow> q \<noteq> ?dest i \<and> q \<noteq> ?loc i" for q
      using IH that by simp
    have blobs: "files ?w' (?dest i) = Some (File (?media i))"
      if i: "i \<in> set (ident # rest)" "downloads env i" for i
    proof (cases "i \<in> set rest")
      case True
      then show ?thesis using IH i(2) by simp
    next
      case False
      then have ii: "i = ident" using i(1) by simp
      have "\<forall>j\<in>set rest. downloads env j \<longrightarrow> ?dest ident \<noteq> ?dest j \<and> ?dest ident \<noteq> ?loc j"
      proof (intro ballI impI)
        fix j assume j: "j \<in> set rest"
        then have sj: "CHR ''/'' \<notin> set j" using assms(2) sub by auto
        have "j \<noteq> ident" using j False ii by auto
        then show "?dest ident \<noteq> ?dest j \<and> ?dest ident \<noteq> ?loc j"
          using pf(1)[OF sid sj] pf(4)[OF sj sid] by simp
      qed
      from frR[OF this] d1 have "files ?w' (?dest ident) = Some (File b)" by auto
      then show ?thesis using ii b by simp
    qed
    have frame: "files ?w' q = files w q \<or> (files w q = None \<and> files ?w' q = Some Dir
                  \<and> (q = storageDir env \<or> q = videosDir env))"
      if q: "\<forall>i\<in>set (ident # rest). downloads env i \<longrightarrow> q \<noteq> ?dest i \<and> q \<noteq> ?loc i" for q
    proof -
      have 1: "q \<noteq> ?dest ident" "q \<noteq> ?loc ident" using q True by simp_all
      have 2: "\<forall>i\<in>set rest. downloads env i \<longrightarrow> q \<noteq> ?dest i \<and> q \<noteq> ?loc i" using q by simp
      from fr1[rule_format, OF 1] frR[OF 2] show ?thesis by auto
    qed
    show ?thesis unfolding step using top con blobs frame by simp
  qed
qed

lemma producer_iteration_acquires:
  assumes "dir_path (dirname env)" and "files w (dirname env) = Some Dir"
    and "CHR ''/'' \<notin> set ident"
    and "producer_iteration env (tempDir env) w ident = Inr w'"
  shows "\<exists>b. ytdlp env (video_url ident) (video_localPath env ident) = Some b
           \<and> video_key ident = ''videos/downloaded_video_'' @ ident @ ''.mp4''
           \<and> blob env (files w') (video_key ident) = Some b
           \<and> (\<forall>p. in_storage env p \<and> files w' p \<noteq> files w p \<longrightarrow>
                  p = path_join (storageDir env) (video_key ident) \<or> p = videosDir env)
           \<and> topic w' = topic w @ [video_key ident]
           \<and> (\<forall>rest. producer_loop env (tempDir env) w (ident # rest)
                        = producer_loop env (tempDir env) w' rest)"
proof -
  let ?dest = "path_join (storageDir env) (video_key ident)"
  from producer_iteration_InrD[OF assms] obtain b where
    b: "ytdlp env (video_url ident) (video_localPath env ident) = Some b"
    and d: "files w' ?dest = Some (File b)"
    and t: "topic w' = topic w @ [video_key ident]"
    and fr: "\<forall>q. q \<noteq> ?dest \<longrightarrow> q \<noteq> video_localPath env ident \<longrightarrow>
                files w' q = files w q \<or> (files w q = None \<and> files w' q = Some Dir
                   \<and> (q = storageDir env \<or> q = videosDir env))"
    by auto
  have "?dest \<noteq> [] \<and> last ?dest \<noteq> CHR ''/''"
    unfolding video_paths(3)[OF assms(1,3)]
    using plain_nameD(1,5)[OF video_names(2)[OF assms(3)]] by simp
  then have bl: "blob env (files w') (video_key ident) = Some b"
    using d by (simp add: blob_def readFile_def)
  have st: "p = ?dest \<or> p = videosDir env"
    if p: "in_storage env p \<and> files w' p \<noteq> files w p" for p
  proof (cases "p = ?dest")
    case True
    then show ?thesis by simp
  next
    case False
    have "\<not> in_storage env (video_localPath env ident)"
      unfolding video_paths(2)[OF assms(1,3)] by (rule producer_in_storage(2)[OF assms(1)])
    then have "p \<noteq> video_localPath env ident" using p by auto
    from fr[rule_format, OF False this] p layout_in_storage(5)[OF assms(1)]
    show ?thesis by auto
  qed
  have lp: "\<forall>rest. producer_loop env (tempDir env) w (ident # rest)
                        = producer_loop env (tempDir env) w' rest"
    using assms(4) by simp
  have "video_key ident = ''videos/downloaded_video_'' @ ident @ ''.mp4''"
    by (simp add: video_key_def)
  then show ?thesis using b bl st t lp by auto
qed

text \<open>
  The scenario of the specification for the producer, run as it is: work list \<open>[v1]\<close>,
  tools that succeed.
\<close>

lemma runProducer_single_item:
  "(case runProducer_on example_env example_world [''v1''] of
      Inl x \<Rightarrow> False
    | Inr w' \<Rightarrow>
        blob example_env (files w') ''videos/downloaded_video_v1.mp4''
          = Some ''media of https://www.youtube.com/watch?v=v1''
        \<and> topic w' = [''videos/downloaded_video_v1.mp4'']
        \<and> files w' ''/app/temp/downloaded_video_v1.mp4'' = None)"
  by code_simp

text \<open>
  C6. Whatever makes the body of the loop fail for an id, the loop logs one line and goes
  on with the ids that remain; the id is not tried again. On a disk that is ready for
  the producer and with a broker that delivers, the run as a whole never fails, and: the
  topic gains the keys of exactly the ids whose download succeeds, in the order of the
  work list; one error is logged for each id whose download fails; every id whose
  download succeeds has its media in the bucket under its key at the end; and an id
  whose download fails gets neither an object (the path of its key is as before) nor a
  message.
\<close>

theorem C6_failures_isolated:
  assumes "dir_path (dirname env)" and "producer_ready env (files w) work"
    and "\<forall>i\<in>set work. CHR ''/'' \<notin> set i"
    and "\<forall>i\<in>set work. \<forall>log. kafka env log (video_key i) = Delivered"
  shows "(\<forall>tw ident rest e w1.
            producer_iteration env (tempDir env) tw ident = Inl (e, w1) \<longrightarrow>
            producer_loop env (tempDir env) tw (ident # rest)
              = producer_loop env (tempDir env)
                  (w1\<lparr>console := console w1 @ [''Error in producer:'']\<rparr>) rest)
       \<and> (\<exists>w'. runProducer_on env w work = Inr w'
             \<and> topic w' = topic w @ map video_key (filter (downloads env) work)
             \<and> console w' = console w
                 @ map (\<lambda>i. ''Error in producer:'') (filter (\<lambda>i. \<not> downloads env i) work)
             \<and> (\<forall>i\<in>set work.
                   (downloads env i \<longrightarrow>
                      blob env (files w') (video_key i)
                        = ytdlp env (video_url i) (video_localPath env i))
                 \<and> (\<not> downloads env i \<longrightarrow>
                      files w' (path_join (storageDir env) (video_key i))
                        = files w (path_join (storageDir env) (video_key i))
                      \<and> video_key i \<notin> set (map video_key (filter (downloads env) work)))))"
proof -
  let ?P = "tempDir env" and ?fs = "files w"
  let ?loc = "video_localPath env" and ?dest = "\<lambda>i. path_join (storageDir env) (video_key i)"
  let ?fs1 = "if ?fs ?P = None then ?fs(?P \<mapsto> Dir) else ?fs"
  let ?w1 = "w\<lparr>files := ?fs1\<rparr>"
  let ?w' = "producer_loop env ?P ?w1 work"
  note pf = video_path_facts[OF assms(1)]
  from assms(2) have D: "?fs (dirname env) = Some Dir" and nP: "\<not> is_file ?fs ?P"
    and nS: "\<not> is_file ?fs (storageDir env)" and nV: "\<not> is_file ?fs (videosDir env)"
    and la: "\<forall>i\<in>set work. ?fs (?loc i) \<noteq> Some Dir \<and> ?fs (?dest i) \<noteq> Some Dir"
    by (simp_all add: producer_ready_def list_all_iff)
  have catch: "\<forall>tw ident rest e w1.
            producer_iteration env ?P tw ident = Inl (e, w1) \<longrightarrow>
            producer_loop env ?P tw (ident # rest)
              = producer_loop env ?P (w1\<lparr>console := console w1 @ [''Error in producer:'']\<rparr>) rest"
    by simp
  have ens: "(if \<not> existsSync ?fs ?P then mkdirSync_recursive ?fs ?P else Inr ?fs) = Inr ?fs1"
    unfolding producer_layout(1)[OF assms(1)]
    by (rule ensure_dir_child[of "dirname env" "''temp''" ?fs,
          OF assms(1) plain_name_literals(2) D])
  have run: "runProducer_on env w work = Inr ?w'"
    unfolding runProducer_on_def ens by simp
  note nq = producer_neq[OF assms(1)]
  have P1: "?fs1 ?P = Some Dir"
    using nP by (cases "?fs ?P") (auto simp add: is_file_def split: node.splits)
  have same: "?fs1 q = ?fs q" if "q \<noteq> ?P" for q using that by simp
  have r1: "producer_ready env (files ?w1) work"
  proof -
    have "?fs1 (dirname env) = Some Dir" using same[of "dirname env"] D nq(10) by simp
    moreover have "\<not> is_file ?fs1 ?P" using P1 by (simp add: is_file_def)
    moreover have "\<not> is_file ?fs1 (storageDir env)"
      using same[of "storageDir env"] nS nq(11) by (simp add: is_file_def)
    moreover have "\<not> is_file ?fs1 (videosDir env)"
      using same[of "videosDir env"] nV nq(12) by (simp add: is_file_def)
    moreover have "\<forall>i\<in>set work. ?fs1 (?loc i) \<noteq> Some Dir \<and> ?fs1 (?dest i) \<noteq> Some Dir"
    proof
      fix i assume i: "i \<in> set work"
      then have si: "CHR ''/'' \<notin> set i" using assms(3) by simp
      have "?loc i \<noteq> ?P" "?dest i \<noteq> ?P" using pf(5,6)[OF si si] by simp_all
      then show "?fs1 (?loc i) \<noteq> Some Dir \<and> ?fs1 (?dest i) \<noteq> Some Dir"
        using same la i by simp
    qed
    ultimately show ?thesis by (simp add: producer_ready_def list_all_iff)
  qed
  have P1': "files ?w1 ?P = Some Dir" using P1 by simp
  note R = producer_loop_result[OF assms(1,3,4) subset_refl r1 P1']
  have top: "topic ?w' = topic w @ map video_key (filter (downloads env) work)"
    using R by simp
  have con: "console ?w' = console w
                 @ map (\<lambda>i. ''Error in producer:'') (filter (\<lambda>i. \<not> downloads env i) work)"
    using R by simp
  have item: "(downloads env i \<longrightarrow>
                 blob env (files ?w') (video_key i) = ytdlp env (video_url i) (?loc i))
            \<and> (\<not> downloads env i \<longrightarrow>
                 files ?w' (?dest i) = files w (?dest i)
                 \<and> video_key i \<notin> set (map video_key (filter (downloads env) work)))"
    if i: "i \<in> set work" for i
  proof (cases "downloads env i")
    case True
    have si: "CHR ''/'' \<notin> set i" using assms(3) i by simp
    from True obtain b where b: "ytdlp env (video_url i) (?loc i) = Some b"
      by (auto simp add: downloads_def)
    have "files ?w' (?dest i) = Some (File b)" using R i True b by simp
    moreover have "?dest i \<noteq> [] \<and> last (?dest i) \<noteq> CHR ''/''"
      unfolding video_paths(3)[OF assms(1) si]
      using plain_nameD(1,5)[OF video_names(2)[OF si]] by simp
    ultimately have "blob env (files ?w') (video_key i) = Some b"
      by (simp add: blob_def readFile_def)
    then show ?thesis using True b by simp
  next
    case False
    have si: "CHR ''/'' \<notin> set i" using assms(3) i by simp
    have sep: "\<forall>j\<in>set work. downloads env j \<longrightarrow> ?dest i \<noteq> ?dest j \<and> ?dest i \<noteq> ?loc j"
    proof (intro ballI impI)
      fix j assume j: "j \<in> set work" "downloads env j"
      then have sj: "CHR ''/'' \<notin> set j" using assms(3) by simp
      have "j \<noteq> i" using j(2) False by auto
      then show "?dest i \<noteq> ?dest j \<and> ?dest i \<noteq> ?loc j"
        using pf(1)[OF si sj] pf(4)[OF sj si] by auto
    qed
    have fr: "files ?w' (?dest i) = files ?w1 (?dest i)
              \<or> (files ?w1 (?dest i) = None \<and> files ?w' (?dest i) = Some Dir
                   \<and> (?dest i = storageDir env \<or> ?dest i = videosDir env))"
      using R sep by simp
    have "?dest i \<noteq> ?P" "?dest i \<noteq> storageDir env" "?dest i \<noteq> videosDir env"
      using pf(5)[OF si si] by simp_all
    then have 1: "files ?w' (?dest i) = files w (?dest i)" using fr same by auto
    have 2: "video_key i \<notin> set (map video_key (filter (downloads env) work))"
    proof
      assume "video_key i \<in> set (map video_key (filter (downloads env) work))"
      then obtain j where "downloads env j" "video_key j = video_key i" by auto
      then show False using False by (simp add: video_key_def)
    qed
    show ?thesis using False 1 2 by simp
  qed
  show ?thesis using catch run top con item by auto
qed

theorem C6_failures_isolated_witness:
  "dir_path (dirname v2_fails_env)
   \<and> producer_ready v2_fails_env (files example_world) [''v1'', ''v2'', ''v3'']
   \<and> list_all (\<lambda>i. CHR ''/'' \<notin> set i) [''v1'', ''v2'', ''v3'']
   \<and> \<not> downloads v2_fails_env ''v2''
   \<and> (\<exists>w'. runProducer_on v2_fails_env example_world [''v1'', ''v2'', ''v3''] = Inr w'
         \<and> topic w' = [''videos/downloaded_video_v1.mp4'', ''videos/downloaded_video_v3.mp4'']
         \<and> console w' = [''Error in producer:'']
         \<and> blob v2_fails_env (files w') ''videos/downloaded_video_v1.mp4''
              = Some ''media of https://www.youtube.com/watch?v=v1''
         \<and> blob v2_fails_env (files w') ''videos/downloaded_video_v3.mp4''
              = Some ''media of https://www.youtube.com/watch?v=v3''
         \<and> files w' ''/app/storage/videos/downloaded_video_v2.mp4'' = None)"
proof -
  let ?work = "[''v1'', ''v2'', ''v3'']"
  have h1: "dir_path (dirname v2_fails_env)" by code_simp
  have h2: "producer_ready v2_fails_env (files example_world) ?work" by code_simp
  have h3: "list_all (\<lambda>i. CHR ''/'' \<notin> set i) ?work" by simp
  have h3': "\<forall>i\<in>set ?work. CHR ''/'' \<notin> set i" by simp
  have h4: "\<forall>i\<in>set ?work. \<forall>log. kafka v2_fails_env log (video_key i) = Delivered"
    by (simp add: v2_fails_env_def example_env_def)
  have d: "filter (downloads v2_fails_env) ?work = [''v1'', ''v3'']" by code_simp
  have nd: "filter (\<lambda>i. \<not> downloads v2_fails_env i) ?work = [''v2'']" by code_simp
  have d2: "\<not> downloads v2_fails_env ''v2''" by code_simp
  have d1: "downloads v2_fails_env ''v1''" and d3: "downloads v2_fails_env ''v3''" by code_simp+
  have y1: "ytdlp v2_fails_env (video_url ''v1'') (video_localPath v2_fails_env ''v1'')
              = Some ''media of https://www.youtube.com/watch?v=v1''" by code_simp
  have y3: "ytdlp v2_fails_env (video_url ''v3'') (video_localPath v2_fails_env ''v3'')
              = Some ''media of https://www.youtube.com/watch?v=v3''" by code_simp
  have k: "video_key ''v1'' = ''videos/downloaded_video_v1.mp4''"
    "video_key ''v3'' = ''videos/downloaded_video_v3.mp4''" by (simp_all add: video_key_def)
  have p2: "path_join (storageDir v2_fails_env) (video_key ''v2'')
              = ''/app/storage/videos/downloaded_video_v2.mp4''" by code_simp
  have e2: "files example_world ''/app/storage/videos/downloaded_video_v2.mp4'' = None"
    by code_simp
  have t0: "topic example_world = []" "console example_world = []"
    by (simp_all add: example_world_def)
  from C6_failures_isolated[OF h1 h2 h3' h4] obtain w' where
    run: "runProducer_on v2_fails_env example_world ?work = Inr w'"
    and top: "topic w' = topic example_world @ map video_key (filter (downloads v2_fails_env) ?work)"
    and con: "console w' = console example_world
                 @ map (\<lambda>i. ''Error in producer:'') (filter (\<lambda>i. \<not> downloads v2_fails_env i) ?work)"
    and item: "\<forall>i\<in>set ?work.
                   (downloads v2_fails_env i \<longrightarrow>
                      blob v2_fails_env (files w') (video_key i)
                        = ytdlp v2_fails_env (video_url i) (video_localPath v2_fails_env i))
                 \<and> (\<not> downloads v2_fails_env i \<longrightarrow>
                      files w' (path_join (storageDir v2_fails_env) (video_key i))
                        = files example_world (path_join (storageDir v2_fails_env) (video_key i))
                      \<and> video_key i \<notin> set (map video_key (filter (downloads v2_fails_env) ?work)))"
    by blast
  have 1: "blob v2_fails_env (files w') ''videos/downloaded_video_v1.mp4''
              = Some ''media of https://www.youtube.com/watch?v=v1''"
    using item[rule_format, of "''v1''"] d1 y1 k by simp
  have 3: "blob v2_fails_env (files w') ''videos/downloaded_video_v3.mp4''
              = Some ''media of https://www.youtube.com/watch?v=v3''"
    using item[rule_format, of "''v3''"] d3 y3 k by simp
  have 2: "files w' ''/app/storage/videos/downloaded_video_v2.mp4'' = None"
    using item[rule_format, of "''v2''"] d2 p2 e2 by simp
  have t: "topic w' = [''videos/downloaded_video_v1.mp4'', ''videos/downloaded_video_v3.mp4'']"
    unfolding top d t0 using k by simp
  have c: "console w' = [''Error in producer:'']" unfolding con nd t0 by simp
  show ?thesis using h1 h2 h3 d2 run t c 1 2 3 by blast
qed

section \<open>Processing the same key again\<close>

lemma split_slash_length:
  "length (split_slash p) = Suc (length (filter (\<lambda>c. c = CHR ''/'') p))"
  by (induction p) (auto split: list.splits)

lemma split_slash_last:
  "last (split_slash p) = rev (takeWhile (\<lambda>c. c \<noteq> CHR ''/'') (rev p))"
proof (induction p)
  case Nil
  then show ?case by simp
next
  case (Cons c cs)
  show ?case
  proof (cases "c = CHR ''/''")
    case True
    then show ?thesis using Cons by (simp add: takeWhile_tail)
  next
    case False
    show ?thesis
    proof (cases "CHR ''/'' \<in> set cs")
      case True
      then have "filter (\<lambda>c. c = CHR ''/'') cs \<noteq> []" by (auto simp add: filter_empty_conv)
      then have "2 \<le> length (split_slash cs)" by (simp add: split_slash_length Suc_le_eq)
      then obtain s t ss where s: "split_slash cs = s # t # ss"
        by (cases "split_slash cs"; cases "tl (split_slash cs)") auto
      have "takeWhile (\<lambda>c. c \<noteq> CHR ''/'') (rev cs @ [c])
              = takeWhile (\<lambda>c. c \<noteq> CHR ''/'') (rev cs)"
        using True by (intro takeWhile_append1[of "CHR ''/''"]) auto
      then show ?thesis using False Cons s by simp
    next
      case nos: False
      then have tw: "takeWhile (\<lambda>c. c \<noteq> CHR ''/'') (rev cs @ [c]) = rev cs @ [c]"
        using False by (auto simp add: takeWhile_eq_all_conv)
      have a: "last (split_slash (c # cs)) = c # cs"
        using False split_slash_plain[OF nos] by simp
      have b: "rev (takeWhile (\<lambda>c. c \<noteq> CHR ''/'') (rev (c # cs))) = c # cs"
        unfolding rev.simps tw by simp
      show ?thesis by (simp only: a b)
    qed
  qed
qed

lemma path_basename_last_segment:
  assumes "k \<noteq> []" "last k \<noteq> CHR ''/''"
  shows "\<exists>ys. split_slash k = ys @ [path_basename k]"
proof -
  have "hd (rev k) \<noteq> CHR ''/''" using assms by (simp add: hd_rev)
  then have "dropWhile (\<lambda>c. c = CHR ''/'') (rev k) = rev k"
    using assms(1) by (cases "rev k") auto
  then have "path_basename k = last (split_slash k)"
    by (simp add: path_basename_def split_slash_last)
  then have "split_slash k = butlast (split_slash k) @ [path_basename k]" by simp
  then show ?thesis by blast
qed

lemma path_join_last_segment:
  assumes "dir_path d" "k \<noteq> []" "last k \<noteq> CHR ''/''" "plain_name (path_basename k)"
  shows "\<exists>pre. path_join d k = pre @ CHR ''/'' # path_basename k"
proof -
  obtain ys where ys: "split_slash k = ys @ [path_basename k]"
    using path_basename_last_segment[OF assms(2,3)] by blast
  let ?xs = "norm_segs False [] (split_slash d @ ys)"
  let ?n = "path_basename k"
  have sp: "split_slash (d @ CHR ''/'' # k) = (split_slash d @ ys) @ [?n]"
    by (simp add: split_slash_append ys)
  have seg: "norm_segs False [] (split_slash (d @ CHR ''/'' # k)) = ?xs @ [?n]"
    unfolding sp by (rule norm_segs_snoc_plain[OF assms(4)])
  have jn: "join_slash (?xs @ [?n]) \<noteq> []"
  proof (cases "?xs = []")
    case True
    then show ?thesis using plain_nameD(1)[OF assms(4)] by simp
  next
    case False
    show ?thesis unfolding join_slash_snoc[OF False] by simp
  qed
  have "path_normalize (d @ CHR ''/'' # k) = CHR ''/'' # join_slash (?xs @ [?n])"
    using dir_pathD(1,2)[OF assms(1)] assms(2,3) jn
    by (intro path_normalize_abs seg) simp_all
  moreover have "\<exists>pre. CHR ''/'' # join_slash (?xs @ [?n]) = pre @ CHR ''/'' # ?n"
  proof (cases "?xs = []")
    case True
    then show ?thesis by simp
  next
    case False
    then have "CHR ''/'' # join_slash (?xs @ [?n]) = (CHR ''/'' # join_slash ?xs) @ CHR ''/'' # ?n"
      by (simp add: join_slash_snoc)
    then show ?thesis by blast
  qed
  ultimately show ?thesis
    using dir_pathD(1)[OF assms(1)] assms(2) by (simp add: path_join_def)
qed

lemma path_normalize_trailing:
  assumes "p \<noteq> []" "last p = CHR ''/''"
  shows "last (path_normalize p) = CHR ''/''"
  using assms by (simp add: path_normalize_def Let_def)

lemma blob_SomeD:
  assumes "dir_path (dirname env)" "blob env fs k = Some c" "k \<noteq> []"
  shows "last k \<noteq> CHR ''/''" and "fs (path_join (storageDir env) k) = Some (File c)"
proof -
  let ?S = "storageDir env"
  from assms(2) have r: "readFile fs (path_join ?S k) = Some c" by (simp add: blob_def)
  show "fs (path_join ?S k) = Some (File c)" using readFile_SomeD[OF r] by simp
  show "last k \<noteq> CHR ''/''"
  proof
    assume "last k = CHR ''/''"
    then have "last (path_normalize (?S @ CHR ''/'' # k)) = CHR ''/''"
      using assms(3) by (intro path_normalize_trailing) simp_all
    then have "last (path_join ?S k) = CHR ''/''"
      using assms(3) dir_pathD(1)[OF layout_dir_path(2)[OF assms(1)]] by (simp add: path_join_def)
    then show False using readFile_SomeD[OF r] by simp
  qed
qed

lemma uploadToS3_existing:
  assumes "dir_path (dirname env)" "plain_name m" "plain_name x"
    and "fs (storageDir env @ CHR ''/'' # m) = Some Dir"
    and "readFile fs v = Some c"
    and "fs ((storageDir env @ CHR ''/'' # m) @ CHR ''/'' # x) \<noteq> Some Dir"
  shows "uploadToS3 env fs v (m @ CHR ''/'' # x)
           = Inr (fs((storageDir env @ CHR ''/'' # m) @ CHR ''/'' # x \<mapsto> File c))"
proof -
  let ?S = "storageDir env" and ?X = "storageDir env @ CHR ''/'' # m"
  let ?dest = "?X @ CHR ''/'' # x"
  note s = layout_dir_path(2)[OF assms(1)]
  have dest: "path_join ?S (m @ CHR ''/'' # x) = ?dest"
    by (rule path_join_two[OF s assms(2,3)])
  have dx: "dir_path ?X" by (rule dir_path_child[OF s assms(2)])
  have "writeFile fs ?dest c = Inr (fs(?dest \<mapsto> File c))"
    using writeFile_child[OF dx, of x fs c] plain_nameD[OF assms(3)] assms(4,6) by simp
  then have "copyFile fs v ?dest = Inr (fs(?dest \<mapsto> File c))"
    using assms(5) by (simp add: copyFile_def)
  then show ?thesis
    unfolding uploadToS3_def Let_def dest path_dirname_child[OF dx plain_nameD(1,2)[OF assms(3)]]
    using assms(4) by (simp add: existsSync_def)
qed

lemma upload_loop_InrI:
  assumes "dir_path (dirname env)"
    and "\<forall>x\<in>set xs. plain_name x" "distinct xs"
    and "fs (encodedDir env) = Some Dir"
    and "\<forall>x\<in>set xs. \<exists>c. fs (tempEncodedDir env @ CHR ''/'' # x) = Some (File c)"
    and "\<forall>x\<in>set xs. fs (encodedDir env @ CHR ''/'' # x) \<noteq> Some Dir"
  shows "\<exists>fs'. upload_loop env fs (map (\<lambda>x. tempEncodedDir env @ CHR ''/'' # x) xs) = Inr fs'
           \<and> fs' (storageDir env) = fs (storageDir env)"
  using assms(2-)
proof (induction xs arbitrary: fs)
  case Nil
  then show ?case by simp
next
  case (Cons x xs)
  let ?T = "\<lambda>y. tempEncodedDir env @ CHR ''/'' # y"
  let ?E = "\<lambda>y. encodedDir env @ CHR ''/'' # y"
  note nq = layout_child_neq[OF assms(1)]
  note nqs = nq[THEN not_sym]
  have px: "plain_name x" using Cons.prems(1) by simp
  obtain c where c: "fs (?T x) = Some (File c)" using Cons.prems(4) by auto
  have r: "readFile fs (?T x) = Some c"
    using c plain_nameD(1,5)[OF px] by (simp add: readFile_def)
  have E': "fs (storageDir env @ CHR ''/'' # ''encoded'') = Some Dir"
    using Cons.prems(3) by (simp add: encodedDir_def)
  have nd: "fs ((storageDir env @ CHR ''/'' # ''encoded'') @ CHR ''/'' # x) \<noteq> Some Dir"
    using Cons.prems(5) by (simp add: encodedDir_def)
  let ?fs1 = "fs(?E x \<mapsto> File c)"
  have up: "uploadToS3 env fs (?T x) (''encoded/'' @ x) = Inr ?fs1"
    using uploadToS3_existing[OF assms(1) plain_name_literals(4) px E' r nd]
    by (simp add: encodedDir_def)
  have "?fs1 (?T x) = Some (File c)" using c by (simp add: nq)
  then have un: "unlinkSync ?fs1 (?T x) = Inr (?fs1(?T x := None))" by (rule unlinkSync_File)
  let ?fs2 = "?fs1(?T x := None)"
  have bn: "path_basename (?T x) = x" using path_basename_child plain_nameD[OF px] by simp
  have 1: "?fs2 (encodedDir env) = Some Dir" using Cons.prems(3) by (simp add: nq nqs)
  have 2: "\<forall>y\<in>set xs. \<exists>c. ?fs2 (?T y) = Some (File c)"
  proof
    fix y assume y: "y \<in> set xs"
    then have "y \<noteq> x" using Cons.prems(2) by auto
    then show "\<exists>c. ?fs2 (?T y) = Some (File c)" using Cons.prems(4) y by (simp add: nq nqs)
  qed
  have 3: "\<forall>y\<in>set xs. ?fs2 (?E y) \<noteq> Some Dir"
  proof
    fix y assume y: "y \<in> set xs"
    then have "y \<noteq> x" using Cons.prems(2) by auto
    then show "?fs2 (?E y) \<noteq> Some Dir" using Cons.prems(5) y by (simp add: nq nqs)
  qed
  have pxs: "\<forall>y\<in>set xs. plain_name y" and dxs: "distinct xs"
    using Cons.prems(1,2) by simp_all
  have "\<exists>fs'. upload_loop env ?fs2 (map ?T xs) = Inr fs'
          \<and> fs' (storageDir env) = ?fs2 (storageDir env)"
    by (rule Cons.IH[OF pxs dxs 1 2 3])
  moreover have "upload_loop env fs (map ?T (x # xs)) = upload_loop env ?fs2 (map ?T xs)"
    by (simp only: list.map upload_loop.simps bn up sum.case un)
  moreover have "?fs2 (storageDir env) = fs (storageDir env)" by (simp add: nq nqs)
  ultimately show ?case by simp
qed

lemma processVideo_InrI:
  assumes "dir_path (dirname env)" "fs (dirname env) = Some Dir"
    and "\<forall>f\<in>set (outputFormats env). valid_format f" "distinct (outputFormats env)"
    and "plain_name (path_basename k)" "blob env fs k = Some c"
    and "fs (tempEncodedDir env) = Some Dir"
    and "fs (tempEncodedDir env @ CHR ''/'' # path_basename k) \<noteq> Some Dir"
    and "\<forall>f\<in>set (outputFormats env).
           ffmpeg env (localVideoPath env k) c
             (encodeVideo_outputPath env (localVideoPath env k) f) \<noteq> None"
    and "\<forall>f\<in>set (outputFormats env).
           fs (tempEncodedDir env @ CHR ''/'' # (stem k @ CHR ''.'' # f)) \<noteq> Some Dir"
    and "\<forall>f\<in>set (outputFormats env). path_basename k \<noteq> stem k @ CHR ''.'' # f"
    and "fs (encodedDir env) = Some Dir"
    and "\<forall>f\<in>set (outputFormats env).
           fs (encodedDir env @ CHR ''/'' # (stem k @ CHR ''.'' # f)) \<noteq> Some Dir"
  shows "\<exists>fs'. processVideo env early fs k = Inr fs'
           \<and> fs' (storageDir env) = fs (storageDir env)"
proof -
  let ?T = "tempEncodedDir env" and ?L = "localVideoPath env k" and ?F = "outputFormats env"
  let ?O = "encodeVideo_outputPath env ?L"
  let ?n = "\<lambda>f. stem k @ CHR ''.'' # f"
  let ?b = "path_basename k"
  note nq = layout_child_neq[OF assms(1)]
  note nqs = nq[THEN not_sym]
  note t = layout_dir_path(1)[OF assms(1)]
  have L: "?L = ?T @ CHR ''/'' # ?b"
    using localVideoPath_cases[OF assms(1), of k] assms(5) by auto
  have bL: "path_basename ?L = ?b"
    using path_basename_child[of ?b ?T] plain_nameD[OF assms(5)] L by simp
  have st: "stem ?L = stem k" using bL by (rule stem_cong)
  have bne: "path_basename ?L \<noteq> []" using bL plain_nameD(1)[OF assms(5)] by simp
  have O: "?O f = ?T @ CHR ''/'' # ?n f" and pn: "plain_name (?n f)" if "f \<in> set ?F" for f
    using outputPath_shape[OF assms(1) bne, of f] assms(3) that st by simp_all
  \<comment> \<open>the fetch\<close>
  let ?fs2 = "fs(?L \<mapsto> File c)"
  have r: "readFile fs (path_join (storageDir env) k) = Some c"
    using assms(6) by (simp add: blob_def)
  have "writeFile fs ?L c = Inr ?fs2"
    unfolding L using writeFile_child[OF t, of ?b fs c] plain_nameD[OF assms(5)] assms(7,8)
    by simp
  then have "copyFile fs (path_join (storageDir env) k) ?L = Inr ?fs2"
    using r by (simp add: copyFile_def)
  then have fetch: "processVideo_fetch env fs k = Inr ?fs2"
    using assms(7)
    by (simp add: processVideo_fetch_def Let_def existsSync_def downloadFromS3_def)
  \<comment> \<open>the conversions\<close>
  have T2: "?fs2 ?T = Some Dir" using assms(7) L by (simp add: nq nqs)
  have ex2: "?fs2 ?T \<noteq> None" using T2 by simp
  have r2: "readFile ?fs2 ?L = Some c"
    using L plain_nameD(1,5)[OF assms(5)] by (simp add: readFile_def)
  let ?g = "\<lambda>f. run_ffmpeg env ?fs2 ?L (?O f)"
  have conv: "\<exists>b. ?g f = Inr (?O f, b)" if f: "f \<in> set ?F" for f
  proof -
    from assms(9) f obtain b where b: "ffmpeg env ?L c (?O f) = Some b" by auto
    have "?n f \<noteq> ?b" using assms(11) f by auto
    then have "?T @ CHR ''/'' # ?n f \<noteq> ?L" unfolding L by simp
    then have "?fs2 (?O f) = fs (?O f)" unfolding O[OF f] by simp
    then have nd: "?fs2 (?O f) \<noteq> Some Dir" using assms(10) f O[OF f] by simp
    have "writeFile ?fs2 (?O f) b = Inr (?fs2(?O f \<mapsto> File b))"
      unfolding O[OF f]
      using writeFile_child[OF t, of "?n f" ?fs2 b] plain_nameD[OF pn[OF f]] nd T2 O[OF f]
      by simp
    then show ?thesis using r2 b by (simp add: run_ffmpeg_def)
  qed
  have "first_rejection (map ?g ?F) = None"
    using conv by (fastforce simp add: first_rejection_None_iff)
  then obtain vs fs4 where enc: "processVideo_encode env early ?fs2 ?L = Inr (vs, fs4)"
    unfolding processVideo_encode_def map_encodeVideo_exists[of ?fs2 env, OF ex2]
    by (simp add: Promise_all_def)
  note E = encode_InrD[of ?fs2 env early ?L vs fs4, OF ex2 enc]
  have vs: "vs = map (\<lambda>x. ?T @ CHR ''/'' # x) (map ?n ?F)" using E(1) O by simp
  have out4: "fs4 q = ?fs2 q" if "q \<notin> ?O ` set ?F" for q using E(3) that by simp
  have notO: "q \<notin> ?O ` set ?F" if "\<forall>f\<in>set ?F. q \<noteq> ?T @ CHR ''/'' # ?n f" for q
    using that O by auto
  \<comment> \<open>the uploads\<close>
  have D4: "fs4 (dirname env) = Some Dir"
    using out4[OF notO, of "dirname env"] assms(2) L by (simp add: nq nqs)
  have E4: "fs4 (encodedDir env) = Some Dir"
    using out4[OF notO, of "encodedDir env"] assms(12) L by (simp add: nq nqs)
  have pns: "\<forall>x\<in>set (map ?n ?F). plain_name x" using pn by auto
  have dn: "distinct (map ?n ?F)" using assms(4) by (simp add: distinct_map inj_on_def)
  have src4: "\<forall>x\<in>set (map ?n ?F). \<exists>c. fs4 (?T @ CHR ''/'' # x) = Some (File c)"
  proof
    fix x assume "x \<in> set (map ?n ?F)"
    then obtain f where f: "f \<in> set ?F" "x = ?n f" by auto
    from E(2) f(1) obtain b where "fs4 (?O f) = Some (File b)" by blast
    then show "\<exists>c. fs4 (?T @ CHR ''/'' # x) = Some (File c)" using O[OF f(1)] f(2) by auto
  qed
  have dst4: "\<forall>x\<in>set (map ?n ?F). fs4 (encodedDir env @ CHR ''/'' # x) \<noteq> Some Dir"
  proof
    fix x assume "x \<in> set (map ?n ?F)"
    then obtain f where f: "f \<in> set ?F" "x = ?n f" by auto
    have "fs4 (encodedDir env @ CHR ''/'' # x) = ?fs2 (encodedDir env @ CHR ''/'' # x)"
      by (rule out4[OF notO]) (simp add: nq nqs)
    then show "fs4 (encodedDir env @ CHR ''/'' # x) \<noteq> Some Dir"
      using assms(13) f L by (simp add: nq nqs)
  qed
  from upload_loop_InrI[OF assms(1) pns dn E4 src4 dst4] obtain fs5 where
    up: "upload_loop env fs4 vs = Inr fs5"
    and S5: "fs5 (storageDir env) = fs4 (storageDir env)" unfolding vs by blast
  have S4: "fs4 (storageDir env) = fs (storageDir env)"
    using out4[OF notO, of "storageDir env"] L by (simp add: nq nqs)
  note U = upload_loop_InrD[of env fs4 "map ?n ?F" fs5, OF assms(1) D4 pns up[unfolded vs]]
  \<comment> \<open>the original is still there, and is deleted\<close>
  have L4: "fs4 ?L = Some (File c)"
  proof -
    have "\<forall>f\<in>set ?F. ?L \<noteq> ?T @ CHR ''/'' # ?n f" using assms(11) L by auto
    from out4[OF notO[OF this]] show ?thesis by simp
  qed
  have "fs5 ?L = Some (File c)"
  proof -
    have 1: "?L \<notin> (\<lambda>x. encodedDir env @ CHR ''/'' # x) ` set (map ?n ?F)"
      unfolding L using nq(5) by auto
    have 2: "?L \<notin> (\<lambda>x. ?T @ CHR ''/'' # x) ` set (map ?n ?F)"
      unfolding L using assms(11) by auto
    from U have "\<forall>q. q \<notin> (\<lambda>x. encodedDir env @ CHR ''/'' # x) ` set (map ?n ?F) \<longrightarrow>
               q \<notin> (\<lambda>x. ?T @ CHR ''/'' # x) ` set (map ?n ?F) \<longrightarrow>
               fs5 q = fs4 q \<or> (fs4 q = None \<and> fs5 q = Some Dir
                  \<and> (q = storageDir env \<or> q = encodedDir env))" by simp
    from this[rule_format, OF 1 2] L4 show ?thesis by simp
  qed
  then have un: "unlinkSync fs5 ?L = Inr (fs5(?L := None))" by (rule unlinkSync_File)
  have "processVideo env early fs k = Inr (fs5(?L := None))"
    by (simp only: processVideo_def fetch sum.case enc prod.case up un)
  moreover have "(fs5(?L := None)) (storageDir env) = fs (storageDir env)"
    using S5 S4 L by (simp add: nq nqs)
  ultimately show ?thesis by blast
qed

section \<open>Redelivery\<close>

lemma ffmpeg_update_layout:
  "localVideoPath (env\<lparr>ffmpeg := g\<rparr>) = localVideoPath env"
  "encodeVideo_outputPath (env\<lparr>ffmpeg := g\<rparr>) = encodeVideo_outputPath env"
  "tempEncodedDir (env\<lparr>ffmpeg := g\<rparr>) = tempEncodedDir env"
  "storageDir (env\<lparr>ffmpeg := g\<rparr>) = storageDir env"
  "encodedDir (env\<lparr>ffmpeg := g\<rparr>) = encodedDir env"
  "blob (env\<lparr>ffmpeg := g\<rparr>) = blob env"
  by (simp_all add: fun_eq_iff localVideoPath_def encodeVideo_outputPath_def
      tempEncodedDir_def storageDir_def encodedDir_def blob_def)

text \<open>
  C8. Let the handler have processed the event with key \<open>K\<close> without error, \<open>K\<close> being
  the key of an object \<open>c\<close> inside the bucket directory, and let the same event be
  delivered again; the encoder of the second delivery, \<open>g\<close>, may differ from the first
  one, and converts \<open>c\<close> to every configured format. Then the second delivery is processed
  without error as well. After the first delivery the object under each key
  \<open>encoded/<basename of K without extension>.f\<close> is the output of the first encoder, after
  the second it is the output of \<open>g\<close>: the object has been written again, over the existing
  one. The second delivery changes no other path, and the keys that hold an object are
  the same after the second delivery as after the first.
\<close>

theorem C8_redelivery:
  assumes "dir_path (dirname env)" and "files w (dirname env) = Some Dir"
    and "\<forall>f\<in>set (outputFormats env). valid_format f" and "outputFormats env \<noteq> []"
    and "K \<noteq> []" and "in_storage env (path_join (storageDir env) K)"
    and "eachMessage env early w (Some K) = Inr w1"
    and "blob env (files w) K = Some c"
    and "\<forall>f\<in>set (outputFormats env).
           g (localVideoPath env K) c (encodeVideo_outputPath env (localVideoPath env K) f)
             \<noteq> None"
  shows "\<exists>w2. eachMessage (env\<lparr>ffmpeg := g\<rparr>) early2 w1 (Some K) = Inr w2
           \<and> (\<forall>f\<in>set (outputFormats env).
                 blob env (files w1) (''encoded/'' @ stem K @ ''.'' @ f)
                   = ffmpeg env (localVideoPath env K) c
                       (encodeVideo_outputPath env (localVideoPath env K) f)
               \<and> blob env (files w2) (''encoded/'' @ stem K @ ''.'' @ f)
                   = g (localVideoPath env K) c
                       (encodeVideo_outputPath env (localVideoPath env K) f))
           \<and> (\<forall>p. files w2 p \<noteq> files w1 p \<longrightarrow>
                 (\<exists>f\<in>set (outputFormats env).
                    p = path_join (storageDir env) (''encoded/'' @ stem K @ ''.'' @ f)))
           \<and> (\<forall>k. blob env (files w2) k = None \<longleftrightarrow> blob env (files w1) k = None)"
proof -
  let ?env2 = "env\<lparr>ffmpeg := g\<rparr>"
  let ?T = "tempEncodedDir env" and ?L = "localVideoPath env K" and ?F = "outputFormats env"
  let ?E = "encodedDir env" and ?S = "storageDir env"
  let ?O = "encodeVideo_outputPath env ?L"
  let ?n = "\<lambda>f. stem K @ CHR ''.'' # f"
  let ?src = "path_join ?S K"
  note nq = layout_child_neq[OF assms(1)]
  note nqs = nq[THEN not_sym]
  note same = ffmpeg_update_layout[where env = env and g = g]
  have d2: "dir_path (dirname ?env2)" using assms(1) by simp
  have v2: "\<forall>f\<in>set (outputFormats ?env2). valid_format f" using assms(3) by simp
  have ne2: "outputFormats ?env2 \<noteq> []" using assms(4) by simp
  \<comment> \<open>the first delivery\<close>
  from assms(5,7) obtain fs1 where run1: "processVideo env early (files w) K = Inr fs1"
    and w1: "files w1 = fs1"
    by (auto simp add: eachMessage_def Let_def split: sum.splits prod.splits)
  from processVideo_InrD[OF assms(1,2,3,4) run1] obtain c' where
    c': "blob env (files w) K = Some c'"
    and pl: "plain_name (path_basename K)"
    and L: "?L = ?T @ CHR ''/'' # path_basename K"
    and perf1': "\<forall>f\<in>set ?F. \<exists>b. ffmpeg env ?L c' (?O f) = Some b
                 \<and> ?O f = ?T @ CHR ''/'' # ?n f
                 \<and> fs1 (?E @ CHR ''/'' # ?n f) = Some (File b)
                 \<and> fs1 (?T @ CHR ''/'' # ?n f) = None"
    and L1: "fs1 ?L = None" and T1: "fs1 ?T = Some Dir" and E1: "fs1 ?E = Some Dir"
    and dist: "distinct ?F"
    and nocoll: "\<forall>f\<in>set ?F. path_basename K \<noteq> ?n f"
    and frame1: "\<forall>q. q \<noteq> ?L \<longrightarrow> q \<notin> (\<lambda>f. ?T @ CHR ''/'' # ?n f) ` set ?F \<longrightarrow>
                 q \<notin> (\<lambda>f. ?E @ CHR ''/'' # ?n f) ` set ?F \<longrightarrow>
                 fs1 q = files w q \<or> (files w q = None \<and> fs1 q = Some Dir
                   \<and> (q = ?T \<or> q = ?S \<or> q = ?E))"
    by blast
  have cc: "c' = c" using c' assms(8) by simp
  note perf1 = perf1'[unfolded cc]
  have pn: "plain_name (?n f)" if "f \<in> set ?F" for f
  proof -
    have bL: "path_basename ?L = path_basename K"
      using path_basename_child[of "path_basename K" ?T] plain_nameD[OF pl] L by simp
    have st: "stem ?L = stem K" using bL by (rule stem_cong)
    have "path_basename ?L \<noteq> []" using bL plain_nameD(1)[OF pl] by simp
    from outputPath_shape[OF assms(1) this, of f] show ?thesis
      using assms(3) that st by simp
  qed
  have key: "path_join ?S (''encoded/'' @ stem K @ ''.'' @ f) = ?E @ CHR ''/'' # ?n f"
    if "f \<in> set ?F" for f
    using encoded_key_path[OF assms(1) pn[OF that]] by simp
  \<comment> \<open>the original survives the first delivery\<close>
  note src = blob_SomeD[OF assms(1,8,5)]
  have src_L: "?src \<noteq> ?L"
    using assms(6) layout_in_storage(3)[OF assms(1), of "path_basename K"] L by auto
  have src_T: "?src \<notin> (\<lambda>f. ?T @ CHR ''/'' # ?n f) ` set ?F"
    using assms(6) layout_in_storage(3)[OF assms(1)] by auto
  have src_E: "?src \<notin> (\<lambda>f. ?E @ CHR ''/'' # ?n f) ` set ?F"
  proof
    assume "?src \<in> (\<lambda>f. ?E @ CHR ''/'' # ?n f) ` set ?F"
    then obtain f where f: "f \<in> set ?F" and eq: "?src = ?E @ CHR ''/'' # ?n f" by auto
    from path_join_last_segment[OF layout_dir_path(2)[OF assms(1)] assms(5) src(1) pl]
    obtain pre where pre: "?src = pre @ CHR ''/'' # path_basename K" by blast
    have "path_basename ?src = path_basename K"
      unfolding pre using path_basename_child[of "path_basename K" pre] plain_nameD[OF pl]
      by simp
    moreover have "path_basename ?src = ?n f"
      unfolding eq using path_basename_child[of "?n f" ?E] plain_nameD[OF pn[OF f]] by simp
    ultimately show False using nocoll f by auto
  qed
  have "fs1 ?src = Some (File c)"
    using frame1[rule_format, OF src_L src_T src_E] src(2) by auto
  moreover have "?src \<noteq> [] \<and> last ?src \<noteq> CHR ''/''"
    using readFile_SomeD[of "files w" ?src c] assms(8) by (simp add: blob_def)
  ultimately have "readFile fs1 ?src = Some c" by (simp add: readFile_def)
  then have c1: "blob ?env2 fs1 K = Some c" by (simp add: same blob_def)
  have D1: "fs1 (dirname env) = Some Dir"
  proof -
    have "dirname env \<noteq> ?L" unfolding L by (simp add: nq nqs)
    moreover have "dirname env \<notin> (\<lambda>f. ?T @ CHR ''/'' # ?n f) ` set ?F"
      "dirname env \<notin> (\<lambda>f. ?E @ CHR ''/'' # ?n f) ` set ?F"
      by (auto simp add: nq nqs)
    ultimately show ?thesis using frame1 assms(2) by auto
  qed
  \<comment> \<open>the second delivery\<close>
  have a2: "fs1 (dirname ?env2) = Some Dir" using D1 by simp
  have a4: "distinct (outputFormats ?env2)" using dist by simp
  have a6: "fs1 (tempEncodedDir ?env2) = Some Dir" using T1 by (simp add: same)
  have a7: "fs1 (tempEncodedDir ?env2 @ CHR ''/'' # path_basename K) \<noteq> Some Dir"
    using L1 L by (simp add: same)
  have a8: "\<forall>f\<in>set (outputFormats ?env2).
              ffmpeg ?env2 (localVideoPath ?env2 K) c
                (encodeVideo_outputPath ?env2 (localVideoPath ?env2 K) f) \<noteq> None"
    using assms(9) by (simp add: same)
  have a9: "\<forall>f\<in>set (outputFormats ?env2).
              fs1 (tempEncodedDir ?env2 @ CHR ''/'' # ?n f) \<noteq> Some Dir"
    using perf1 by (auto simp add: same)
  have a10: "\<forall>f\<in>set (outputFormats ?env2). path_basename K \<noteq> ?n f" using nocoll by simp
  have a11: "fs1 (encodedDir ?env2) = Some Dir" using E1 by (simp add: same)
  have a12: "\<forall>f\<in>set (outputFormats ?env2).
              fs1 (encodedDir ?env2 @ CHR ''/'' # ?n f) \<noteq> Some Dir"
    using perf1 by (auto simp add: same)
  from processVideo_InrI[of ?env2 fs1 K c early2, OF d2 a2 v2 a4 pl c1 a6 a7 a8 a9 a10 a11 a12]
  obtain fs2 where run2: "processVideo ?env2 early2 fs1 K = Inr fs2"
    and S2: "fs2 ?S = fs1 ?S" by (auto simp add: same)
  have sel: "ffmpeg ?env2 = g" "outputFormats ?env2 = ?F" by simp_all
  from processVideo_InrD[OF d2 a2 v2 ne2 run2, unfolded same sel] obtain c2 where
    c2: "blob env fs1 K = Some c2"
    and perf2': "\<forall>f\<in>set ?F. \<exists>b. g ?L c2 (?O f) = Some b
                 \<and> ?O f = ?T @ CHR ''/'' # ?n f
                 \<and> fs2 (?E @ CHR ''/'' # ?n f) = Some (File b)
                 \<and> fs2 (?T @ CHR ''/'' # ?n f) = None"
    and L2: "fs2 ?L = None"
    and frame2: "\<forall>q. q \<noteq> ?L \<longrightarrow> q \<notin> (\<lambda>f. ?T @ CHR ''/'' # ?n f) ` set ?F \<longrightarrow>
                 q \<notin> (\<lambda>f. ?E @ CHR ''/'' # ?n f) ` set ?F \<longrightarrow>
                 fs2 q = fs1 q \<or> (fs1 q = None \<and> fs2 q = Some Dir
                   \<and> (q = ?T \<or> q = ?S \<or> q = ?E))"
    by blast
  have cc2: "c2 = c" using c2 c1 by (simp add: same)
  note perf2 = perf2'[unfolded cc2]
  have frame: "fs2 q = fs1 q" if q: "q \<notin> (\<lambda>f. ?E @ CHR ''/'' # ?n f) ` set ?F" for q
  proof (cases "q = ?L \<or> q \<in> (\<lambda>f. ?T @ CHR ''/'' # ?n f) ` set ?F")
    case True
    then show ?thesis
    proof
      assume "q = ?L" then show ?thesis using L1 L2 by simp
    next
      assume "q \<in> (\<lambda>f. ?T @ CHR ''/'' # ?n f) ` set ?F"
      then obtain f where f: "f \<in> set ?F" "q = ?T @ CHR ''/'' # ?n f" by auto
      from perf1 f(1) have "fs1 (?T @ CHR ''/'' # ?n f) = None" by blast
      moreover from perf2 f(1) have "fs2 (?T @ CHR ''/'' # ?n f) = None" by blast
      ultimately show ?thesis using f(2) by simp
    qed
  next
    case False
    then have "fs2 q = fs1 q \<or> (fs1 q = None \<and> fs2 q = Some Dir
                   \<and> (q = ?T \<or> q = ?S \<or> q = ?E))"
      using frame2 q by blast
    then show ?thesis using T1 E1 S2 by auto
  qed
  let ?w2 = "w1\<lparr>files := fs2\<rparr>"
  have e2: "eachMessage ?env2 early2 w1 (Some K) = Inr ?w2"
    using assms(5) run2 w1 by (simp add: eachMessage_def)
  have objs: "blob env fs1 (''encoded/'' @ stem K @ ''.'' @ f) = ffmpeg env ?L c (?O f)
            \<and> blob env fs2 (''encoded/'' @ stem K @ ''.'' @ f) = g ?L c (?O f)"
    if f: "f \<in> set ?F" for f
  proof -
    from perf1 f obtain b where b: "ffmpeg env ?L c (?O f) = Some b"
      "fs1 (?E @ CHR ''/'' # ?n f) = Some (File b)" by blast
    from perf2 f obtain b' where b': "g ?L c (?O f) = Some b'"
      "fs2 (?E @ CHR ''/'' # ?n f) = Some (File b')" by blast
    have "blob env fs (''encoded/'' @ ?n f) =
            (case fs (?E @ CHR ''/'' # ?n f) of Some (File c) \<Rightarrow> Some c | _ \<Rightarrow> None)" for fs
      by (rule blob_encoded[OF assms(1) pn[OF f]])
    then show ?thesis using b b' by simp
  qed
  have changed: "\<exists>f\<in>set ?F. p = path_join ?S (''encoded/'' @ stem K @ ''.'' @ f)"
    if "fs2 p \<noteq> fs1 p" for p
  proof -
    from that frame have "p \<in> (\<lambda>f. ?E @ CHR ''/'' # ?n f) ` set ?F" by blast
    then show ?thesis using key by auto
  qed
  have keys: "blob env fs2 k = None \<longleftrightarrow> blob env fs1 k = None" for k
  proof (cases "path_join ?S k \<in> (\<lambda>f. ?E @ CHR ''/'' # ?n f) ` set ?F")
    case True
    then obtain f where f: "f \<in> set ?F" and eq: "path_join ?S k = ?E @ CHR ''/'' # ?n f"
      by auto
    from perf1 perf2 f obtain b b' where "fs1 (?E @ CHR ''/'' # ?n f) = Some (File b)"
      "fs2 (?E @ CHR ''/'' # ?n f) = Some (File b')" by blast
    then show ?thesis unfolding blob_def eq by (simp add: readFile_def)
  next
    case False
    from frame[OF this] show ?thesis by (simp add: blob_def readFile_def)
  qed
  show ?thesis
    using e2 objs changed keys w1 by (intro exI[of _ ?w2]) simp
qed

theorem C8_redelivery_witness:
  "dir_path (dirname example_env)
   \<and> files example_world (dirname example_env) = Some Dir
   \<and> list_all valid_format (outputFormats example_env)
   \<and> outputFormats example_env \<noteq> []
   \<and> in_storage example_env (path_join (storageDir example_env) ''videos/y.mov'')
   \<and> \<not> isl (eachMessage example_env always example_world (Some ''videos/y.mov''))
   \<and> blob example_env (files example_world) ''videos/y.mov'' = Some ''original y''
   \<and> list_all (\<lambda>f. second_ffmpeg (localVideoPath example_env ''videos/y.mov'') ''original y''
                     (encodeVideo_outputPath example_env
                        (localVideoPath example_env ''videos/y.mov'') f) \<noteq> None)
         (outputFormats example_env)
   \<and> (\<exists>w2. eachMessage (example_env\<lparr>ffmpeg := second_ffmpeg\<rparr>) always
              (projr (eachMessage example_env always example_world (Some ''videos/y.mov'')))
              (Some ''videos/y.mov'') = Inr w2
         \<and> blob example_env
              (files (projr (eachMessage example_env always example_world (Some ''videos/y.mov''))))
              ''encoded/y.avi'' = Some ''original y as /app/temp_encoded/y.avi''
         \<and> blob example_env (files w2) ''encoded/y.avi''
              = Some ''original y again as /app/temp_encoded/y.avi'')"
proof -
  let ?K = "''videos/y.mov''"
  let ?w1 = "projr (eachMessage example_env always example_world (Some ?K))"
  let ?L = "localVideoPath example_env ?K"
  let ?O = "encodeVideo_outputPath example_env ?L"
  have h1: "dir_path (dirname example_env)" by code_simp
  have h2: "files example_world (dirname example_env) = Some Dir" by code_simp
  have h3: "list_all valid_format (outputFormats example_env)" by code_simp
  have h4: "outputFormats example_env \<noteq> []" by code_simp
  have h5: "?K \<noteq> []" by simp
  have h6: "in_storage example_env (path_join (storageDir example_env) ?K)" by code_simp
  have h7: "\<not> isl (eachMessage example_env always example_world (Some ?K))" by code_simp
  have h8: "blob example_env (files example_world) ?K = Some ''original y''" by code_simp
  have h9: "list_all (\<lambda>f. second_ffmpeg ?L ''original y'' (?O f) \<noteq> None)
              (outputFormats example_env)"
    by (simp add: second_ffmpeg_def list_all_iff)
  have st: "stem ?K = ''y''" by code_simp
  have mem: "''avi'' \<in> set (outputFormats example_env)"
    by (simp add: example_env_def source_outputFormats_def)
  have o1: "ffmpeg example_env ?L ''original y'' (?O ''avi'')
              = Some ''original y as /app/temp_encoded/y.avi''" by code_simp
  have o2: "second_ffmpeg ?L ''original y'' (?O ''avi'')
              = Some ''original y again as /app/temp_encoded/y.avi''" by code_simp
  have h3': "\<forall>f\<in>set (outputFormats example_env). valid_format f"
    using h3 by (simp add: list_all_iff)
  have h7': "eachMessage example_env always example_world (Some ?K) = Inr ?w1"
    using h7 by simp
  have h9': "\<forall>f\<in>set (outputFormats example_env).
               second_ffmpeg ?L ''original y'' (?O f) \<noteq> None"
    using h9 by (simp add: list_all_iff)
  from C8_redelivery[where env = example_env and w = example_world and K = ?K
      and early = always and ?w1.0 = ?w1 and c = "''original y''" and g = second_ffmpeg
      and ?early2.0 = always, OF h1 h2 h3' h4 h5 h6 h7' h8 h9']
  obtain w2 where
    r: "eachMessage (example_env\<lparr>ffmpeg := second_ffmpeg\<rparr>) always ?w1 (Some ?K) = Inr w2"
    and objs: "\<forall>f\<in>set (outputFormats example_env).
                 blob example_env (files ?w1) (''encoded/'' @ stem ?K @ ''.'' @ f)
                   = ffmpeg example_env ?L ''original y'' (?O f)
               \<and> blob example_env (files w2) (''encoded/'' @ stem ?K @ ''.'' @ f)
                   = second_ffmpeg ?L ''original y'' (?O f)"
    by blast
  from objs mem have
    "blob example_env (files ?w1) (''encoded/'' @ stem ?K @ ''.'' @ ''avi'')
       = ffmpeg example_env ?L ''original y'' (?O ''avi'')
     \<and> blob example_env (files w2) (''encoded/'' @ stem ?K @ ''.'' @ ''avi'')
       = second_ffmpeg ?L ''original y'' (?O ''avi'')"
    by blast
  then have "blob example_env (files ?w1) ''encoded/y.avi''
               = Some ''original y as /app/temp_encoded/y.avi''
           \<and> blob example_env (files w2) ''encoded/y.avi''
               = Some ''original y again as /app/temp_encoded/y.avi''"
    unfolding st o1 o2 by simp
  with r have "\<exists>w2. eachMessage (example_env\<lparr>ffmpeg := second_ffmpeg\<rparr>) always ?w1 (Some ?K)
                 = Inr w2
         \<and> blob example_env (files ?w1) ''encoded/y.avi''
              = Some ''original y as /app/temp_encoded/y.avi''
         \<and> blob example_env (files w2) ''encoded/y.avi''
              = Some ''original y again as /app/temp_encoded/y.avi''"
    by blast
  then show ?thesis using h1 h2 h3 h4 h6 h7 h8 h9 by simp
qed

section \<open>The acquisition run\<close>

lemma uploadToS3_InlD:
  assumes "dir_path (dirname env)" "fs (dirname env) = Some Dir"
    and "plain_name m" "plain_name x"
    and "uploadToS3 env fs v (m @ CHR ''/'' # x) = Inl (e, fs')"
  shows "\<forall>q. q \<noteq> (storageDir env @ CHR ''/'' # m) @ CHR ''/'' # x \<longrightarrow>
           fs' q = fs q \<or> (fs q = None \<and> fs' q = Some Dir
              \<and> (q = storageDir env \<or> q = storageDir env @ CHR ''/'' # m))"
proof -
  let ?S = "storageDir env" and ?X = "storageDir env @ CHR ''/'' # m"
  let ?dest = "?X @ CHR ''/'' # x"
  let ?ens = "if \<not> existsSync fs ?X then mkdirSync_recursive fs ?X else Inr fs"
  note s = layout_dir_path(2)[OF assms(1)]
  have dest: "path_join ?S (m @ CHR ''/'' # x) = ?dest"
    by (rule path_join_two[OF s assms(3,4)])
  have dir: "path_dirname ?dest = ?X"
    using path_dirname_child[OF dir_path_child[OF s assms(3)]] plain_nameD[OF assms(4)] by simp
  have up: "(case ?ens of Inl e \<Rightarrow> Inl (e, fs)
             | Inr fs1 \<Rightarrow> (case copyFile fs1 v ?dest of
                              Inl (e, fs2) \<Rightarrow> Inl (e, fs2) | Inr fs2 \<Rightarrow> Inr fs2))
            = Inl (e, fs')"
    using assms(5) unfolding uploadToS3_def Let_def dest dir .
  show ?thesis
  proof (cases ?ens)
    case (Inl e')
    then have "fs' = fs" using up by simp
    then show ?thesis by simp
  next
    case (Inr fs1)
    note g = ensure_bucket_dir(2)[of env fs m fs1, OF assms(1,2,3) Inr]
    from up Inr have "copyFile fs1 v ?dest = Inl (e, fs')"
      by (auto split: sum.splits)
    from copyFile_InlD[OF this] g show ?thesis by simp
  qed
qed

lemma producer_iteration_InlD:
  assumes "dir_path (dirname env)" "files w (dirname env) = Some Dir"
    and "CHR ''/'' \<notin> set ident"
    and "producer_iteration env (tempDir env) w ident = Inl (e, w')"
  shows "console w' = console w"
    and "topic w' = topic w \<or> topic w' = topic w @ [video_key ident]"
    and "\<forall>q. q \<noteq> path_join (storageDir env) (video_key ident) \<longrightarrow>
             q \<noteq> video_localPath env ident \<longrightarrow>
             files w' q = files w q \<or> (files w q = None \<and> files w' q = Some Dir
                \<and> (q = storageDir env \<or> q = videosDir env))"
proof -
  define n where "n = ''downloaded_video_'' @ ident @ ''.mp4''"
  let ?loc = "tempDir env @ CHR ''/'' # n" and ?dest = "videosDir env @ CHR ''/'' # n"
  let ?out = "tempDir env @ CHR ''/'' # (''downloaded_video_'' @ ident)"
  let ?url = "''https://www.youtube.com/watch?v='' @ ident"
  let ?key = "''videos/'' @ (''downloaded_video_'' @ ident) @ ''.mp4''"
  note vp = video_paths[OF assms(1,3)]
  have pn: "plain_name n" using video_names(2)[OF assms(3)] by (simp add: n_def)
  have loc: "video_localPath env ident = ?loc"
    and dest: "path_join (storageDir env) (video_key ident) = ?dest"
    using vp(2,3) by (simp_all add: n_def)
  have key: "video_key ident = ?key" by (simp add: video_key_def)
  have eqs: "?out @ ''.mp4'' = ?loc" "?key = ''videos'' @ CHR ''/'' # n" by (simp_all add: n_def)
  note nq = producer_neq[OF assms(1)]
  note nqs = nq[THEN not_sym]
  let ?good = "\<lambda>fs. \<forall>q. q \<noteq> ?dest \<longrightarrow> q \<noteq> ?loc \<longrightarrow>
             fs q = files w q \<or> (files w q = None \<and> fs q = Some Dir
                \<and> (q = storageDir env \<or> q = videosDir env))"
  have it: "(case downloadYouTubeVideo env (files w) ?url ?out of
               Inl (e, fs1) \<Rightarrow> Inl (e, w\<lparr>files := fs1\<rparr>)
             | Inr (l, fs1) \<Rightarrow>
                 (case uploadToS3 env fs1 l ?key of
                    Inl (e, fs2) \<Rightarrow> Inl (e, w\<lparr>files := fs2\<rparr>)
                  | Inr fs2 \<Rightarrow>
                      (case produceEvent env (topic w) ?key of
                         Inl (e, log1) \<Rightarrow> Inl (e, w\<lparr>files := fs2, topic := log1\<rparr>)
                       | Inr log1 \<Rightarrow>
                           (case unlinkSync fs2 l of
                              Inl e \<Rightarrow> Inl (e, w\<lparr>files := fs2, topic := log1\<rparr>)
                            | Inr fs3 \<Rightarrow> Inr (w\<lparr>files := fs3, topic := log1\<rparr>)))))
            = Inl (e, w')"
    using assms(4) unfolding producer_iteration_def Let_def vp(1) .
  have all: "console w' = console w
           \<and> (topic w' = topic w \<or> topic w' = topic w @ [?key]) \<and> ?good (files w')"
  proof (cases "downloadYouTubeVideo env (files w) ?url ?out")
    case (Inl x)
    obtain e1 fs1 where x: "x = (e1, fs1)" by (cases x)
    have "fs1 = files w"
      using Inl[unfolded x]
      by (auto simp add: downloadYouTubeVideo_def split: option.splits sum.splits)
    moreover have "w' = w\<lparr>files := fs1\<rparr>"
      using it unfolding Inl x by simp
    ultimately show ?thesis by simp
  next
    case (Inr y)
    then obtain b where y: "y = (?out @ ''.mp4'', (files w)(?out @ ''.mp4'' \<mapsto> File b))"
      by (auto simp add: downloadYouTubeVideo_def split: option.splits sum.splits
          dest: writeFile_InrD)
    let ?fs1 = "(files w)(?loc \<mapsto> File b)"
    have y': "y = (?loc, ?fs1)" using y unfolding eqs .
    have D1: "?fs1 (dirname env) = Some Dir" using assms(2) by (simp add: nqs)
    have V: "storageDir env @ CHR ''/'' # ''videos'' = videosDir env" by (simp add: videosDir_def)
    have it2: "(case uploadToS3 env ?fs1 ?loc ?key of
                    Inl (e, fs2) \<Rightarrow> Inl (e, w\<lparr>files := fs2\<rparr>)
                  | Inr fs2 \<Rightarrow>
                      (case produceEvent env (topic w) ?key of
                         Inl (e, log1) \<Rightarrow> Inl (e, w\<lparr>files := fs2, topic := log1\<rparr>)
                       | Inr log1 \<Rightarrow>
                           (case unlinkSync fs2 ?loc of
                              Inl e \<Rightarrow> Inl (e, w\<lparr>files := fs2, topic := log1\<rparr>)
                            | Inr fs3 \<Rightarrow> Inr (w\<lparr>files := fs3, topic := log1\<rparr>))))
            = Inl (e, w')"
      using it unfolding Inr y' by simp
    show ?thesis
    proof (cases "uploadToS3 env ?fs1 ?loc ?key")
      case (Inl x)
      obtain e2 fs2 where x: "x = (e2, fs2)" by (cases x)
      from uploadToS3_InlD[OF assms(1) D1 plain_name_literals(5) pn Inl[unfolded x eqs]]
      have f2: "\<forall>q. q \<noteq> ?dest \<longrightarrow> fs2 q = ?fs1 q \<or> (?fs1 q = None \<and> fs2 q = Some Dir
              \<and> (q = storageDir env \<or> q = videosDir env))"
        unfolding V .
      have w': "w' = w\<lparr>files := fs2\<rparr>" using it2 unfolding Inl x by simp
      have "?good fs2"
      proof (intro allI impI)
        fix q assume q: "q \<noteq> ?dest" "q \<noteq> ?loc"
        from f2[rule_format, OF q(1)] q(2)
        show "fs2 q = files w q \<or> (files w q = None \<and> fs2 q = Some Dir
                \<and> (q = storageDir env \<or> q = videosDir env))" by simp
      qed
      then show ?thesis using w' by simp
    next
      case up: (Inr fs2)
      from uploadToS3_InrD(2)[OF assms(1) D1 plain_name_literals(5) pn up[unfolded eqs]]
      have f2: "\<forall>q. q \<noteq> ?dest \<longrightarrow> fs2 q = ?fs1 q \<or> (?fs1 q = None \<and> fs2 q = Some Dir
              \<and> (q = storageDir env \<or> q = videosDir env))"
        unfolding V .
      have g2: "?good fs2"
      proof (intro allI impI)
        fix q assume q: "q \<noteq> ?dest" "q \<noteq> ?loc"
        from f2[rule_format, OF q(1)] q(2)
        show "fs2 q = files w q \<or> (files w q = None \<and> fs2 q = Some Dir
                \<and> (q = storageDir env \<or> q = videosDir env))" by simp
      qed
      have it3: "(case produceEvent env (topic w) ?key of
                         Inl (e, log1) \<Rightarrow> Inl (e, w\<lparr>files := fs2, topic := log1\<rparr>)
                       | Inr log1 \<Rightarrow>
                           (case unlinkSync fs2 ?loc of
                              Inl e \<Rightarrow> Inl (e, w\<lparr>files := fs2, topic := log1\<rparr>)
                            | Inr fs3 \<Rightarrow> Inr (w\<lparr>files := fs3, topic := log1\<rparr>)))
            = Inl (e, w')"
        using it2 unfolding up by simp
      show ?thesis
      proof (cases "produceEvent env (topic w) ?key")
        case (Inl x)
        obtain e3 log1 where x: "x = (e3, log1)" by (cases x)
        have "log1 = topic w \<or> log1 = topic w @ [?key]"
          using Inl[unfolded x] by (auto simp add: produceEvent_def split: kafka_outcome.splits)
        moreover have "w' = w\<lparr>files := fs2, topic := log1\<rparr>"
          using it3 unfolding Inl x by simp
        ultimately show ?thesis using g2 by auto
      next
        case pe: (Inr log1)
        have l1: "log1 = topic w @ [?key]"
          using pe by (auto simp add: produceEvent_def split: kafka_outcome.splits)
        have "w' = w\<lparr>files := fs2, topic := log1\<rparr>"
          using it3 unfolding pe by (cases "unlinkSync fs2 ?loc") simp_all
        then show ?thesis using g2 l1 by simp
      qed
    qed
  qed
  show "console w' = console w" using all by simp
  show "topic w' = topic w \<or> topic w' = topic w @ [video_key ident]"
    using all unfolding key by simp
  show "\<forall>q. q \<noteq> path_join (storageDir env) (video_key ident) \<longrightarrow>
             q \<noteq> video_localPath env ident \<longrightarrow>
             files w' q = files w q \<or> (files w q = None \<and> files w' q = Some Dir
                \<and> (q = storageDir env \<or> q = videosDir env))"
    unfolding loc dest using all by simp
qed

lemma producer_loop_append:
  "producer_loop env P w (xs @ ys) = producer_loop env P (producer_loop env P w xs) ys"
  by (induction xs arbitrary: w) (auto split: sum.splits)

lemma producer_loop_frame:
  assumes "dir_path (dirname env)" "\<forall>j\<in>set xs. CHR ''/'' \<notin> set j"
    and "files u (dirname env) = Some Dir"
  shows "files (producer_loop env (tempDir env) u xs) (dirname env) = Some Dir
       \<and> (\<exists>ms. topic (producer_loop env (tempDir env) u xs) = topic u @ ms
                \<and> set ms \<subseteq> video_key ` set xs)
       \<and> (\<forall>q. (\<forall>j\<in>set xs. q \<noteq> path_join (storageDir env) (video_key j)
                    \<and> q \<noteq> video_localPath env j) \<longrightarrow>
             files (producer_loop env (tempDir env) u xs) q = files u q
             \<or> (files u q = None \<and> files (producer_loop env (tempDir env) u xs) q = Some Dir
                  \<and> (q = storageDir env \<or> q = videosDir env)))"
  using assms(2,3)
proof (induction xs arbitrary: u)
  case Nil
  then show ?case by simp
next
  case (Cons i xs)
  let ?P = "tempDir env"
  let ?loc = "video_localPath env" and ?dest = "\<lambda>i. path_join (storageDir env) (video_key i)"
  have si: "CHR ''/'' \<notin> set i" and sxs: "\<forall>j\<in>set xs. CHR ''/'' \<notin> set j"
    using Cons.prems(1) by simp_all
  note pf = video_path_facts[OF assms(1)]
  have D_out: "dirname env \<noteq> ?dest i" "dirname env \<noteq> ?loc i"
    using pf(5,6)[OF si si] by auto
  \<comment> \<open>the world with which the loop goes on\<close>
  obtain u1 where step: "producer_loop env ?P u (i # xs) = producer_loop env ?P u1 xs"
    and top1: "topic u1 = topic u \<or> topic u1 = topic u @ [video_key i]"
    and fr1: "\<forall>q. q \<noteq> ?dest i \<longrightarrow> q \<noteq> ?loc i \<longrightarrow>
                files u1 q = files u q \<or> (files u q = None \<and> files u1 q = Some Dir
                   \<and> (q = storageDir env \<or> q = videosDir env))"
  proof (cases "producer_iteration env ?P u i")
    case (Inl x)
    obtain e u' where x: "x = (e, u')" by (cases x)
    note I = producer_iteration_InlD[OF assms(1) Cons.prems(2) si Inl[unfolded x]]
    let ?u1 = "u'\<lparr>console := console u' @ [''Error in producer:'']\<rparr>"
    have "producer_loop env ?P u (i # xs) = producer_loop env ?P ?u1 xs"
      using Inl x by simp
    moreover have "topic ?u1 = topic u \<or> topic ?u1 = topic u @ [video_key i]"
      using I(2) by simp
    moreover have "\<forall>q. q \<noteq> ?dest i \<longrightarrow> q \<noteq> ?loc i \<longrightarrow>
                files ?u1 q = files u q \<or> (files u q = None \<and> files ?u1 q = Some Dir
                   \<and> (q = storageDir env \<or> q = videosDir env))"
      using I(3) by simp
    ultimately show ?thesis by (rule that)
  next
    case (Inr u')
    from producer_iteration_InrD[OF assms(1) Cons.prems(2) si Inr] have
      "topic u' = topic u @ [video_key i]"
      and "\<forall>q. q \<noteq> ?dest i \<longrightarrow> q \<noteq> ?loc i \<longrightarrow>
                files u' q = files u q \<or> (files u q = None \<and> files u' q = Some Dir
                   \<and> (q = storageDir env \<or> q = videosDir env))"
      by auto
    moreover have "producer_loop env ?P u (i # xs) = producer_loop env ?P u' xs"
      using Inr by simp
    ultimately show ?thesis using that by blast
  qed
  have D1: "files u1 (dirname env) = Some Dir"
    using fr1[rule_format, OF D_out] Cons.prems(2) by auto
  note IH = Cons.IH[OF sxs D1]
  let ?w = "producer_loop env ?P u1 xs"
  from IH obtain ms where ms: "topic ?w = topic u1 @ ms" "set ms \<subseteq> video_key ` set xs"
    by blast
  have top: "\<exists>ms'. topic ?w = topic u @ ms' \<and> set ms' \<subseteq> video_key ` set (i # xs)"
    using top1
  proof
    assume "topic u1 = topic u"
    then have "topic ?w = topic u @ ms \<and> set ms \<subseteq> video_key ` set (i # xs)"
      using ms by auto
    then show ?thesis by blast
  next
    assume "topic u1 = topic u @ [video_key i]"
    then have "topic ?w = topic u @ (video_key i # ms)
             \<and> set (video_key i # ms) \<subseteq> video_key ` set (i # xs)"
      using ms by auto
    then show ?thesis by blast
  qed
  have frame: "files ?w q = files u q \<or> (files u q = None \<and> files ?w q = Some Dir
                  \<and> (q = storageDir env \<or> q = videosDir env))"
    if q: "\<forall>j\<in>set (i # xs). q \<noteq> ?dest j \<and> q \<noteq> ?loc j" for q
  proof -
    have 1: "q \<noteq> ?dest i" "q \<noteq> ?loc i" using q by simp_all
    have 2: "\<forall>j\<in>set xs. q \<noteq> ?dest j \<and> q \<noteq> ?loc j" using q by simp
    have a: "files u1 q = files u q \<or> (files u q = None \<and> files u1 q = Some Dir
                   \<and> (q = storageDir env \<or> q = videosDir env))"
      by (rule fr1[rule_format, OF 1])
    have b: "files ?w q = files u1 q \<or> (files u1 q = None \<and> files ?w q = Some Dir
                  \<and> (q = storageDir env \<or> q = videosDir env))"
      using IH 2 by blast
    from a b show ?thesis by (elim disjE conjE) simp_all
  qed
  have "files ?w (dirname env) = Some Dir" using IH by blast
  then show ?case unfolding step using top frame by blast
qed

lemma runProducer_on_InrD:
  assumes "dir_path (dirname env)" "files w (dirname env) = Some Dir"
    and "runProducer_on env w pre = Inr wp"
  shows "\<exists>fs1. wp = producer_loop env (tempDir env) (w\<lparr>files := fs1\<rparr>) pre
           \<and> fs1 (dirname env) = Some Dir
           \<and> (\<forall>q. q \<noteq> tempDir env \<longrightarrow> fs1 q = files w q)
           \<and> (\<forall>rest. runProducer_on env w (pre @ rest)
                  = Inr (producer_loop env (tempDir env) wp rest))"
proof -
  let ?P = "tempDir env" and ?fs = "files w"
  let ?fs1 = "if ?fs ?P = None then ?fs(?P \<mapsto> Dir) else ?fs"
  have ens: "(if \<not> existsSync ?fs ?P then mkdirSync_recursive ?fs ?P else Inr ?fs) = Inr ?fs1"
    unfolding producer_layout(1)[OF assms(1)]
    by (rule ensure_dir_child[of "dirname env" "''temp''" ?fs,
          OF assms(1) plain_name_literals(2) assms(2)])
  have run: "runProducer_on env w xs = Inr (producer_loop env ?P (w\<lparr>files := ?fs1\<rparr>) xs)" for xs
    unfolding runProducer_on_def ens by simp
  have wp: "wp = producer_loop env ?P (w\<lparr>files := ?fs1\<rparr>) pre"
    using assms(3) run[of pre] by simp
  have D: "?fs1 (dirname env) = Some Dir"
    using assms(2) producer_neq(10)[OF assms(1)] by simp
  have fr: "\<forall>q. q \<noteq> ?P \<longrightarrow> ?fs1 q = ?fs q" by simp
  have "\<forall>rest. runProducer_on env w (pre @ rest) = Inr (producer_loop env ?P wp rest)"
    unfolding run wp producer_loop_append by simp
  then show ?thesis using wp D fr by blast
qed

text \<open>
  C5. Take an acquisition run on a work list of different ids (none containing a slash),
  and an id \<open>i\<close> of the list; \<open>wp\<close> is the state the run has reached when it comes to
  \<open>i\<close>, after the ids \<open>pre\<close> before it. If the body of the loop ends without error for
  \<open>i\<close>, in the state \<open>wi\<close>, then yt-dlp has delivered some media \<open>b\<close>, and:
  \<^item> in \<open>wi\<close> the bucket holds \<open>b\<close> under the key \<open>videos/downloaded_video_<i>.mp4\<close>; the
    iteration has changed no other path of the bucket, except that the directory
    \<open>videos\<close> may have been created; and it has appended one message to the topic, that
    key;
  \<^item> the run goes on with the ids \<open>post\<close> that follow and ends; at its end the bucket
    still holds \<open>b\<close> under that key, and among the messages the whole run has appended
    to the topic exactly one is that key;
  \<^item> the only paths of the bucket the run has changed are keys of ids of the work list
    and the directory \<open>videos\<close>.
  Nothing is assumed about the other ids: their downloads, uploads or messages may fail.
\<close>

theorem C5_acquisition_run:
  assumes "dir_path (dirname env)" and "files w (dirname env) = Some Dir"
    and "\<forall>j\<in>set (pre @ i # post). CHR ''/'' \<notin> set j" and "distinct (pre @ i # post)"
    and "runProducer_on env w pre = Inr wp"
    and "producer_iteration env (tempDir env) wp i = Inr wi"
  shows "\<exists>w' b ms. runProducer_on env w (pre @ i # post) = Inr w'
           \<and> ytdlp env (video_url i) (video_localPath env i) = Some b
           \<and> video_key i = ''videos/downloaded_video_'' @ i @ ''.mp4''
           \<and> blob env (files wi) (video_key i) = Some b
           \<and> topic wi = topic wp @ [video_key i]
           \<and> (\<forall>p. in_storage env p \<and> files wi p \<noteq> files wp p \<longrightarrow>
                  p = path_join (storageDir env) (video_key i) \<or> p = videosDir env)
           \<and> blob env (files w') (video_key i) = Some b
           \<and> topic w' = topic w @ ms \<and> count_list ms (video_key i) = 1
           \<and> (\<forall>p. in_storage env p \<and> files w' p \<noteq> files w p \<longrightarrow>
                  p = videosDir env
                  \<or> (\<exists>j\<in>set (pre @ i # post). p = path_join (storageDir env) (video_key j)))"
proof -
  let ?P = "tempDir env" and ?S = "storageDir env" and ?V = "videosDir env"
  let ?loc = "video_localPath env" and ?dest = "\<lambda>i. path_join (storageDir env) (video_key i)"
  let ?w' = "producer_loop env ?P wi post"
  note pf = video_path_facts[OF assms(1)]
  have si: "CHR ''/'' \<notin> set i" and spre: "\<forall>j\<in>set pre. CHR ''/'' \<notin> set j"
    and spost: "\<forall>j\<in>set post. CHR ''/'' \<notin> set j" using assms(3) by simp_all
  have ipre: "i \<notin> set pre" and ipost: "i \<notin> set post" using assms(4) by auto
  have inj: "video_key a = video_key b \<Longrightarrow> a = b" for a b by (simp add: video_key_def)
  \<comment> \<open>the run up to \<open>i\<close>\<close>
  from runProducer_on_InrD[OF assms(1,2,5)] obtain fs1 where
    wp: "wp = producer_loop env ?P (w\<lparr>files := fs1\<rparr>) pre"
    and D1: "fs1 (dirname env) = Some Dir"
    and f1: "\<forall>q. q \<noteq> ?P \<longrightarrow> fs1 q = files w q"
    and runs: "\<forall>rest. runProducer_on env w (pre @ rest) = Inr (producer_loop env ?P wp rest)"
    by blast
  have D1': "files (w\<lparr>files := fs1\<rparr>) (dirname env) = Some Dir" using D1 by simp
  from producer_loop_frame[OF assms(1) spre D1'] obtain ms1 where
    Dp: "files wp (dirname env) = Some Dir"
    and tp: "topic wp = topic w @ ms1" and ms1: "set ms1 \<subseteq> video_key ` set pre"
    and fp: "\<forall>q. (\<forall>j\<in>set pre. q \<noteq> ?dest j \<and> q \<noteq> ?loc j) \<longrightarrow>
               files wp q = fs1 q \<or> (fs1 q = None \<and> files wp q = Some Dir
                  \<and> (q = ?S \<or> q = ?V))"
    unfolding wp by auto
  \<comment> \<open>the iteration for \<open>i\<close>\<close>
  from producer_iteration_acquires[OF assms(1) Dp si assms(6)] obtain b where
    b: "ytdlp env (video_url i) (?loc i) = Some b"
    and key: "video_key i = ''videos/downloaded_video_'' @ i @ ''.mp4''"
    and bi: "blob env (files wi) (video_key i) = Some b"
    and sti: "\<forall>p. in_storage env p \<and> files wi p \<noteq> files wp p \<longrightarrow> p = ?dest i \<or> p = ?V"
    and ti: "topic wi = topic wp @ [video_key i]"
    by blast
  from producer_iteration_InrD[OF assms(1) Dp si assms(6)] have
    fi: "\<forall>q. q \<noteq> ?dest i \<longrightarrow> q \<noteq> ?loc i \<longrightarrow>
            files wi q = files wp q \<or> (files wp q = None \<and> files wi q = Some Dir
               \<and> (q = ?S \<or> q = ?V))"
    by auto
  have di: "files wi (?dest i) = Some (File b)"
    using bi readFile_SomeD[of "files wi" "?dest i" b] by (simp add: blob_def)
  have D_out: "dirname env \<noteq> ?dest i" "dirname env \<noteq> ?loc i"
    using pf(5,6)[OF si si] by auto
  have Di: "files wi (dirname env) = Some Dir"
    using fi[rule_format, OF D_out] Dp by auto
  \<comment> \<open>the rest of the run\<close>
  have run: "runProducer_on env w (pre @ i # post) = Inr ?w'"
    using runs[rule_format, of "i # post"] assms(6) by simp
  from producer_loop_frame[OF assms(1) spost Di] obtain ms2 where
    t': "topic ?w' = topic wi @ ms2" and ms2: "set ms2 \<subseteq> video_key ` set post"
    and f': "\<forall>q. (\<forall>j\<in>set post. q \<noteq> ?dest j \<and> q \<noteq> ?loc j) \<longrightarrow>
               files ?w' q = files wi q \<or> (files wi q = None \<and> files ?w' q = Some Dir
                  \<and> (q = ?S \<or> q = ?V))"
    by auto
  have "\<forall>j\<in>set post. ?dest i \<noteq> ?dest j \<and> ?dest i \<noteq> ?loc j"
  proof
    fix j assume j: "j \<in> set post"
    then have sj: "CHR ''/'' \<notin> set j" using spost by simp
    have "i \<noteq> j" using j ipost by auto
    then show "?dest i \<noteq> ?dest j \<and> ?dest i \<noteq> ?loc j"
      using pf(1)[OF si sj] pf(4)[OF sj si] by simp
  qed
  from f'[THEN spec, THEN mp, OF this] di have d': "files ?w' (?dest i) = Some (File b)" by auto
  have "?dest i \<noteq> [] \<and> last (?dest i) \<noteq> CHR ''/''"
    using readFile_SomeD[of "files wi" "?dest i" b] bi by (simp add: blob_def)
  then have b': "blob env (files ?w') (video_key i) = Some b"
    using d' by (simp add: blob_def readFile_def)
  \<comment> \<open>the messages of the run\<close>
  let ?ms = "ms1 @ video_key i # ms2"
  have top: "topic ?w' = topic w @ ?ms" using t' ti tp by simp
  have "video_key i \<notin> set ms1" using ms1 ipre inj by auto
  moreover have "video_key i \<notin> set ms2" using ms2 ipost inj by auto
  ultimately have cnt: "count_list ?ms (video_key i) = 1" by simp
  \<comment> \<open>the bucket at the end of the run\<close>
  have st: "p = ?V \<or> (\<exists>j\<in>set (pre @ i # post). p = ?dest j)"
    if p: "in_storage env p \<and> files ?w' p \<noteq> files w p" for p
  proof (rule ccontr)
    assume "\<not> (p = ?V \<or> (\<exists>j\<in>set (pre @ i # post). p = ?dest j))"
    then have nV: "p \<noteq> ?V" and nd: "\<forall>j\<in>set (pre @ i # post). p \<noteq> ?dest j" by auto
    have nS: "p \<noteq> ?S" using p layout_in_storage(5)[OF assms(1)] by auto
    have nP: "p \<noteq> ?P" using p producer_in_storage(3)[OF assms(1)] by auto
    have nl: "p \<noteq> ?loc j" if "CHR ''/'' \<notin> set j" for j
      using p producer_in_storage(2)[OF assms(1)] video_paths(2)[OF assms(1) that] by auto
    have 1: "fs1 p = files w p" using f1 nP by simp
    have "\<forall>j\<in>set pre. p \<noteq> ?dest j \<and> p \<noteq> ?loc j" using nd nl spre by simp
    from fp[THEN spec, THEN mp, OF this] nS nV have 2: "files wp p = fs1 p" by auto
    have "p \<noteq> ?dest i" "p \<noteq> ?loc i" using nd nl[OF si] by simp_all
    from fi[rule_format, OF this] nS nV have 3: "files wi p = files wp p" by auto
    have "\<forall>j\<in>set post. p \<noteq> ?dest j \<and> p \<noteq> ?loc j" using nd nl spost by simp
    from f'[THEN spec, THEN mp, OF this] nS nV have 4: "files ?w' p = files wi p" by auto
    show False using p 1 2 3 4 by simp
  qed
  show ?thesis
    using run b key bi ti sti b' top cnt st by blast
qed

theorem C5_acquisition_run_witness:
  "dir_path (dirname example_env)
   \<and> files fresh_world (dirname example_env) = Some Dir
   \<and> list_all (\<lambda>j. CHR ''/'' \<notin> set j) [''v1'']
   \<and> distinct [''v1'']
   \<and> \<not> isl (runProducer_on example_env fresh_world [])
   \<and> \<not> isl (producer_iteration example_env (tempDir example_env)
              (projr (runProducer_on example_env fresh_world [])) ''v1'')
   \<and> (\<exists>w'. runProducer_on example_env fresh_world [''v1''] = Inr w'
         \<and> blob example_env (files w') ''videos/downloaded_video_v1.mp4''
              = Some ''media of https://www.youtube.com/watch?v=v1''
         \<and> count_list (topic w') ''videos/downloaded_video_v1.mp4'' = 1)"
proof -
  let ?wp = "projr (runProducer_on example_env fresh_world [])"
  let ?wi = "projr (producer_iteration example_env (tempDir example_env) ?wp ''v1'')"
  have h1: "dir_path (dirname example_env)" by code_simp
  have h2: "files fresh_world (dirname example_env) = Some Dir" by code_simp
  have h3: "list_all (\<lambda>j. CHR ''/'' \<notin> set j) [''v1'']" by simp
  have h3': "\<forall>j\<in>set ([] @ ''v1'' # []). CHR ''/'' \<notin> set j" by simp
  have h4: "distinct [''v1'']" by simp
  have h4': "distinct ([] @ ''v1'' # [])" by simp
  have h5: "\<not> isl (runProducer_on example_env fresh_world [])" by code_simp
  have h6: "\<not> isl (producer_iteration example_env (tempDir example_env) ?wp ''v1'')"
    by code_simp
  have h5': "runProducer_on example_env fresh_world [] = Inr ?wp" using h5 by simp
  have h6': "producer_iteration example_env (tempDir example_env) ?wp ''v1'' = Inr ?wi"
    using h6 by simp
  have k: "video_key ''v1'' = ''videos/downloaded_video_v1.mp4''" by (simp add: video_key_def)
  have y: "ytdlp example_env (video_url ''v1'') (video_localPath example_env ''v1'')
             = Some ''media of https://www.youtube.com/watch?v=v1''" by code_simp
  have t0: "topic fresh_world = []" by (simp add: fresh_world_def)
  from C5_acquisition_run[where pre = "[]" and post = "[]", OF h1 h2 h3' h4' h5' h6']
  obtain w' b ms where
    run: "runProducer_on example_env fresh_world ([] @ [''v1'']) = Inr w'"
    and b: "ytdlp example_env (video_url ''v1'') (video_localPath example_env ''v1'') = Some b"
    and bl: "blob example_env (files w') (video_key ''v1'') = Some b"
    and top: "topic w' = topic fresh_world @ ms"
    and cnt: "count_list ms (video_key ''v1'') = 1"
    by blast
  have "b = ''media of https://www.youtube.com/watch?v=v1''" using b y by simp
  then have "runProducer_on example_env fresh_world [''v1''] = Inr w'
         \<and> blob example_env (files w') ''videos/downloaded_video_v1.mp4''
              = Some ''media of https://www.youtube.com/watch?v=v1''
         \<and> count_list (topic w') ''videos/downloaded_video_v1.mp4'' = 1"
    using run bl top cnt unfolding k t0 by simp
  then have "\<exists>w'. runProducer_on example_env fresh_world [''v1''] = Inr w'
         \<and> blob example_env (files w') ''videos/downloaded_video_v1.mp4''
              = Some ''media of https://www.youtube.com/watch?v=v1''
         \<and> count_list (topic w') ''videos/downloaded_video_v1.mp4'' = 1"
    by blast
  then show ?thesis using h1 h2 h3 h4 h5 h6 by simp
qed

text \<open>The work list of the source is one of different ids without a slash.\<close>

lemma ids_wellformed: "distinct ids \<and> (\<forall>j\<in>set ids. CHR ''/'' \<notin> set j)"
  by (simp add: ids_def)

text \<open>The same run, evaluated: the directories are created on the way.\<close>

lemma runProducer_fresh_disk:
  "(case runProducer_on example_env fresh_world [''v1''] of
      Inl x \<Rightarrow> False
    | Inr w' \<Rightarrow>
        blob example_env (files w') ''videos/downloaded_video_v1.mp4''
          = Some ''media of https://www.youtube.com/watch?v=v1''
        \<and> topic w' = [''videos/downloaded_video_v1.mp4'']
        \<and> files w' ''/app/temp'' = Some Dir
        \<and> files w' ''/app/storage/videos'' = Some Dir
        \<and> files w' ''/app/temp/downloaded_video_v1.mp4'' = None)"
  by code_simp

end
